theory Spec2Isabelle
  imports Complex_Main
begin

section \<open>Data model of \<^verbatim>\<open>main.go\<close>\<close>

text \<open>
  The Go struct \<^verbatim>\<open>File {Bucket, Name}\<close> and the constants the split uses.
  \<^verbatim>\<open>MaxFileSize = 10 * 1 << 20\<close>: in Go \<^verbatim>\<open>*\<close> and \<^verbatim>\<open><<\<close> have the same
  precedence and associate to the left, so the value is \<open>(10 * 1) * 2 ^ 20\<close>.
\<close>

record File =
  Bucket :: string
  Name :: string

definition MaxFileSize :: nat where
  "MaxFileSize = (10 * 1) * 2 ^ 20"

definition OutBucket :: string where
  "OutBucket = ''cmrc-integrations''"

definition InBucket :: string where
  "InBucket = ''bucket_rmscm02056_yalo''"

text \<open>
  Every error value the program can see. \<open>EOF\<close> is \<^verbatim>\<open>io.EOF\<close>, \<open>ErrFieldCount\<close>
  is the error of \<^verbatim>\<open>encoding/csv\<close> for a record whose number of fields differs from the
  first record's, \<open>ParseFloatError\<close> is the wrapped error of line 161.
\<close>

datatype error =
  OpenError | EOF | ReadError | ErrFieldCount | WriteError | CloseError
  | ParseFloatError | IngestError

subsection \<open>The source object and the CSV reader\<close>

text \<open>
  A source object is the sequence of results its CSV reader yields before end of input:
  a parsed record, or a failure of the underlying stream or of the CSV syntax. An object
  whose reader cannot be opened is \<open>NoObject\<close>.
\<close>

datatype readEvent = Rec "string list" | ReadFail

datatype source = NoObject | Object "readEvent list"

text \<open>
  \<^verbatim>\<open>reader.Read()\<close> for a data record. The reader is created with
  \<^verbatim>\<open>FieldsPerRecord = 0\<close>, so the header fixes the number of fields and a later record
  with another number of fields is returned as an error.
\<close>

definition csvRead :: "string list \<Rightarrow> readEvent \<Rightarrow> error + string list" where
  "csvRead header ev =
     (case ev of
        ReadFail \<Rightarrow> Inl ReadError
      | Rec record \<Rightarrow>
          if length record = length header then Inr record else Inl ErrFieldCount)"

subsection \<open>The destination store\<close>

text \<open>
  A part is a destination object: its name, the rows written to it so far (the header
  included) and the state of its write handle. \<open>Open\<close>: the handle was created by
  \<^verbatim>\<open>NewWriter\<close> and \<^verbatim>\<open>Close\<close> has not been called. \<open>Committed\<close>: \<^verbatim>\<open>Close\<close>
  returned nil. \<open>CloseFailed\<close>: \<^verbatim>\<open>Close\<close> returned an error.
  The buffer of the \<^verbatim>\<open>csv.Writer\<close> is not modelled: a row counts as written when
  \<^verbatim>\<open>writer.Write\<close> returns nil (the code flushes after every record).
\<close>

datatype pstatus = Open | Committed | CloseFailed

record part =
  pname :: string
  prows :: "string list list"
  pstatus :: pstatus

subsection \<open>The environment\<close>

text \<open>
  What the program does not decide itself:
  \<^item> \<open>ParseFloat\<close> is \<^verbatim>\<open>strconv.ParseFloat(_, 64)\<close>, \<open>None\<close> for an error. Its
    result is a float64, given as the real number that float64 denotes; infinities and
    NaN are not modelled.
  \<^item> \<open>Sprintf\<close> is \<^verbatim>\<open>fmt.Sprintf\<close> with one integer argument, used only for a
    format that holds a \<^verbatim>\<open>%\<close> of its own before the final \<^verbatim>\<open>%06d\<close> (see
    \<open>partFileName\<close>).
  \<^item> \<open>inClient\<close> gives the source object of a \<open>File\<close>.
  \<^item> \<open>outFails n\<close> says whether the \<open>n\<close>-th operation on the destination store
    (a \<^verbatim>\<open>writer.Write\<close> or a \<^verbatim>\<open>wc.Close\<close>, counted from 0 within one call of
    \<open>splitFile\<close>) returns an error.
\<close>

record env =
  ParseFloat :: "string \<Rightarrow> real option"
  Sprintf :: "string \<Rightarrow> nat \<Rightarrow> string"
  inClient :: "File \<Rightarrow> source"
  outFails :: "nat \<Rightarrow> bool"

section \<open>\<^verbatim>\<open>splitFile\<close>\<close>

subsection \<open>Part names and row sizes\<close>

fun decimal :: "nat \<Rightarrow> string" where
  "decimal n =
     (if n < 10 then [char_of (48 + n)]
      else decimal (n div 10) @ [char_of (48 + n mod 10)])"

declare decimal.simps [simp del]

text \<open>
  \<^verbatim>\<open>fmt.Sprintf(file.Name+"_part_%06d.csv", i)\<close>. The name is part of the format
  string. When it holds no \<^verbatim>\<open>%\<close> the result is the name, \<^verbatim>\<open>_part_\<close>, the index
  in decimal padded with zeros to six digits, and \<^verbatim>\<open>.csv\<close>. When it holds a
  \<^verbatim>\<open>%\<close> the verbs in the name are formatted too (they may consume the index); that
  result is taken from the environment.
\<close>

definition pad6 :: "nat \<Rightarrow> string" where
  "pad6 n = replicate (6 - length (decimal n)) (CHR ''0'') @ decimal n"

definition partFileName :: "env \<Rightarrow> string \<Rightarrow> nat \<Rightarrow> string" where
  "partFileName e name i =
     (if CHR ''%'' \<in> set name then Sprintf e (name @ ''_part_%06d.csv'') i
      else name @ ''_part_'' @ pad6 i @ ''.csv'')"

text \<open>\<^verbatim>\<open>strings.Join(record, ",")\<close>.\<close>

fun join :: "string list \<Rightarrow> string" where
  "join [] = []"
| "join [x] = x"
| "join (x # y # ys) = x @ '','' @ join (y # ys)"

text \<open>
  \<^verbatim>\<open>len([]byte(strings.Join(record, ","))) + len([]byte("\n"))\<close>: a \<open>char\<close> is a
  byte.
\<close>

definition rowBytes :: "string list \<Rightarrow> nat" where
  "rowBytes record = length (join record) + length ''\<newline>''"

subsection \<open>The loop state\<close>

text \<open>
  The variables of the loop: \<open>files\<close>, \<open>wc\<close> (\<open>None\<close> is nil), \<open>bytesWritten\<close>;
  and of the destination store: the parts whose handle was closed with success, oldest
  first, and the number of operations done on the store.
  \<open>bytesWritten\<close> is a Go \<^verbatim>\<open>int\<close>; it is reset at every part and stays below
  \<open>MaxFileSize\<close> plus one row, so it cannot overflow and is a \<open>nat\<close> here.
\<close>

record splitState =
  files :: "File list"
  wc :: "part option"
  bytesWritten :: nat
  closedParts :: "part list"
  ops :: nat

definition initState :: splitState where
  "initState = \<lparr>files = [], wc = None, bytesWritten = 0, closedParts = [], ops = 0\<rparr>"

text \<open>
  Every destination object created so far, in the order of creation. The list does not
  model a part that replaces an earlier part of the same name; the names of the parts of
  one call are made from different row indices.
\<close>

definition allParts :: "splitState \<Rightarrow> part list" where
  "allParts s = closedParts s @ (case wc s of None \<Rightarrow> [] | Some p \<Rightarrow> [p])"

text \<open>
  How a call ends: it returns \<^verbatim>\<open>(files, err)\<close> (a nil slice is the empty list), or
  it panics on the index expression \<^verbatim>\<open>record[5]\<close>.
\<close>

datatype splitReturn = Returned "File list" "error option" | Panicked

text \<open>
  A step of the loop body either leaves the function (\<open>Inl\<close>, with what is returned and
  the state at that moment) or goes on (\<open>Inr\<close>).
\<close>

type_synonym step = "(splitReturn \<times> splitState) + splitState"

subsection \<open>The loop body\<close>

text \<open>Lines 133 to 140: close the current part and record its \<open>File\<close>.\<close>

definition closeCurrent :: "env \<Rightarrow> splitState \<Rightarrow> step" where
  "closeCurrent e s =
     (case wc s of
        None \<Rightarrow> Inr s
      | Some p \<Rightarrow>
          if outFails e (ops s)
          then Inl (Returned (files s) (Some CloseError),
                    s\<lparr>wc := Some (p\<lparr>pstatus := CloseFailed\<rparr>), ops := ops s + 1\<rparr>)
          else Inr (s\<lparr>files := files s @ [\<lparr>Bucket = OutBucket, Name = pname p\<rparr>],
                      closedParts := closedParts s @ [p\<lparr>pstatus := Committed\<rparr>],
                      wc := None,
                      ops := ops s + 1\<rparr>))"

text \<open>Lines 142 to 156: open the next part, write the header, reset the count.\<close>

definition openPart :: "env \<Rightarrow> string list \<Rightarrow> string \<Rightarrow> nat \<Rightarrow> splitState \<Rightarrow> step" where
  "openPart e header name i s =
     (let p = \<lparr>pname = partFileName e name i, prows = [], pstatus = Open\<rparr>
      in if outFails e (ops s)
         then Inl (Returned (files s) (Some WriteError),
                   s\<lparr>wc := Some p, ops := ops s + 1\<rparr>)
         else Inr (s\<lparr>wc := Some (p\<lparr>prows := [header]\<rparr>),
                     bytesWritten := 0,
                     ops := ops s + 1\<rparr>))"

text \<open>Lines 132 to 157.\<close>

definition rollover ::
  "env \<Rightarrow> nat \<Rightarrow> string list \<Rightarrow> string \<Rightarrow> nat \<Rightarrow> splitState \<Rightarrow> step" where
  "rollover e maxBytes header name i s =
     (if wc s = None \<or> bytesWritten s > maxBytes
      then (case closeCurrent e s of
              Inl x \<Rightarrow> Inl x
            | Inr s1 \<Rightarrow> openPart e header name i s1)
      else Inr s)"

text \<open>
  The test of lines 164 and 172, \<^verbatim>\<open>row5-0. > 0.0001\<close>, is a comparison of float64
  values. Subtracting zero leaves \<open>row5\<close> as it is. The constant is the float64 nearest
  to 0.0001, which is \<open>7378697629483821 / 2 ^ 66\<close>, a little above one ten-thousandth.
\<close>

definition threshold64 :: real where
  "threshold64 = 7378697629483821 / 2 ^ 66"

definition keep :: "real \<Rightarrow> bool" where
  "keep row5 = (row5 - 0 > threshold64)"

text \<open>Lines 164 to 169: \<^verbatim>\<open>writer.Write(record)\<close> into the current part.\<close>

definition writeRecord :: "env \<Rightarrow> real \<Rightarrow> string list \<Rightarrow> splitState \<Rightarrow> step" where
  "writeRecord e row5 record s =
     (if keep row5
      then if outFails e (ops s)
           then Inl (Returned (files s) (Some WriteError), s\<lparr>ops := ops s + 1\<rparr>)
           else Inr (s\<lparr>wc := map_option (\<lambda>p. p\<lparr>prows := prows p @ [record]\<rparr>) (wc s),
                       ops := ops s + 1\<rparr>)
      else Inr s)"

text \<open>Lines 172 to 174.\<close>

definition account :: "real \<Rightarrow> string list \<Rightarrow> splitState \<Rightarrow> splitState" where
  "account row5 record s =
     (if keep row5 then s\<lparr>bytesWritten := bytesWritten s + rowBytes record\<rparr> else s)"

text \<open>
  Lines 159 to 174. \<^verbatim>\<open>record[5]\<close> panics when the record has fewer than six fields.
\<close>

definition processRecord :: "env \<Rightarrow> string list \<Rightarrow> splitState \<Rightarrow> step" where
  "processRecord e record s =
     (if length record \<le> 5 then Inl (Panicked, s)
      else case ParseFloat e (record ! 5) of
             None \<Rightarrow> Inl (Returned (files s) (Some ParseFloatError), s)
           | Some row5 \<Rightarrow>
               (case writeRecord e row5 record s of
                  Inl x \<Rightarrow> Inl x
                | Inr s1 \<Rightarrow> Inr (account row5 record s1)))"

text \<open>One iteration, after the record has been read: lines 131 to 174.\<close>

definition body ::
  "env \<Rightarrow> nat \<Rightarrow> string list \<Rightarrow> string \<Rightarrow> nat \<Rightarrow> string list \<Rightarrow> splitState \<Rightarrow> step" where
  "body e maxBytes header name i record s =
     (case rollover e maxBytes header name i s of
        Inl x \<Rightarrow> Inl x
      | Inr s1 \<Rightarrow> processRecord e record s1)"

text \<open>Lines 177 to 180: at end of input the open part is closed and \<open>files\<close> returned.\<close>

definition finish :: "env \<Rightarrow> splitState \<Rightarrow> splitReturn \<times> splitState" where
  "finish e s =
     (Returned (files s) None,
      case wc s of
        None \<Rightarrow> s
      | Some p \<Rightarrow>
          s\<lparr>wc := Some (p\<lparr>pstatus := (if outFails e (ops s) then CloseFailed else Committed)\<rparr>),
            ops := ops s + 1\<rparr>)"

text \<open>
  The loop of lines 120 to 175, over the results the reader still has to give; \<open>i\<close> is
  the loop counter. The end of the list is \<^verbatim>\<open>io.EOF\<close>.
\<close>

fun loop ::
  "env \<Rightarrow> nat \<Rightarrow> string list \<Rightarrow> string \<Rightarrow> nat \<Rightarrow> splitState \<Rightarrow> readEvent list
     \<Rightarrow> splitReturn \<times> splitState" where
  "loop e maxBytes header name i s [] = finish e s"
| "loop e maxBytes header name i s (ev # evs) =
     (case csvRead header ev of
        Inl err \<Rightarrow> (Returned [] (Some err), s)
      | Inr record \<Rightarrow>
          (case body e maxBytes header name i record s of
             Inl x \<Rightarrow> x
           | Inr s1 \<Rightarrow> loop e maxBytes header name (i + 1) s1 evs))"

subsection \<open>The function\<close>

text \<open>
  What a call leaves behind: what it returned, the destination objects it created (in the
  order of creation) and the state of the source reader. \<^verbatim>\<open>defer r.Close()\<close> runs on
  every way out of the function once the reader exists, a panic included.
\<close>

datatype rstatus = NotOpened | ReaderOpen | ReaderClosed

record splitResult =
  ret :: splitReturn
  store :: "part list"
  reader :: rstatus

definition deferClose :: "splitResult \<Rightarrow> splitResult" where
  "deferClose r = r\<lparr>reader := ReaderClosed\<rparr>"

definition splitFileMax :: "nat \<Rightarrow> env \<Rightarrow> File \<Rightarrow> splitResult" where
  "splitFileMax maxBytes e file =
     (case inClient e file of
        NoObject \<Rightarrow> \<lparr>ret = Returned [] (Some OpenError), store = [], reader = NotOpened\<rparr>
      | Object evs \<Rightarrow>
          deferClose
            (case evs of
               [] \<Rightarrow> \<lparr>ret = Returned [] (Some EOF), store = [], reader = ReaderOpen\<rparr>
             | ReadFail # _ \<Rightarrow>
                 \<lparr>ret = Returned [] (Some ReadError), store = [], reader = ReaderOpen\<rparr>
             | Rec header # rest \<Rightarrow>
                 (let (r, s) = loop e maxBytes header (Name file) 0 initState rest
                  in \<lparr>ret = r, store = allParts s, reader = ReaderOpen\<rparr>)))"

definition splitFile :: "env \<Rightarrow> File \<Rightarrow> splitResult" where
  "splitFile = splitFileMax MaxFileSize"

subsection \<open>Observations used by the properties\<close>

text \<open>
  The inclusion decision of the code for a record that reaches line 164: the sixth
  field parses and the parsed number passes \<open>keep\<close>.
\<close>

definition included :: "env \<Rightarrow> string list \<Rightarrow> bool" where
  "included e record =
     (case ParseFloat e (record ! 5) of None \<Rightarrow> False | Some row5 \<Rightarrow> keep row5)"

text \<open>
  The inclusion filter as the specification words it (section 4.2, step c, and section 8):
  the absolute value of the parsed quantity exceeds 0.0001. It is compared with
  \<open>included\<close>, the test of the code.
\<close>

definition includedSpec :: "env \<Rightarrow> string list \<Rightarrow> bool" where
  "includedSpec e record =
     (case ParseFloat e (record ! 5) of None \<Rightarrow> False | Some q \<Rightarrow> \<bar>q\<bar> > 1 / 10000)"

text \<open>The records among the results of a reader.\<close>

fun recordsOf :: "readEvent list \<Rightarrow> string list list" where
  "recordsOf [] = []"
| "recordsOf (Rec r # evs) = r # recordsOf evs"
| "recordsOf (ReadFail # evs) = recordsOf evs"

text \<open>The data records of a source object: every record but the header.\<close>

definition sourceRows :: "source \<Rightarrow> string list list" where
  "sourceRows src = (case src of NoObject \<Rightarrow> [] | Object evs \<Rightarrow> tl (recordsOf evs))"

text \<open>The rows of a list of parts, part after part, without the first row of each part.\<close>

definition dataRows :: "part list \<Rightarrow> string list list" where
  "dataRows ps = concat (map (\<lambda>p. tl (prows p)) ps)"

text \<open>
  The parts whose handle was closed with success: the objects the destination store
  holds after the call.
\<close>

definition committedParts :: "part list \<Rightarrow> part list" where
  "committedParts ps = filter (\<lambda>p. pstatus p = Committed) ps"

text \<open>Every part of the list starts with the row \<open>h\<close>.\<close>

definition headed :: "string list \<Rightarrow> part list \<Rightarrow> bool" where
  "headed h ps = list_all (\<lambda>p. take 1 (prows p) = [h]) ps"

subsection \<open>A parser for plain decimal numerals\<close>

text \<open>
  A stand-in for \<^verbatim>\<open>strconv.ParseFloat\<close> on the spellings \<^verbatim>\<open>[+-]digits[.digits]\<close>,
  used where a concrete input is evaluated. It gives the exact value of the numeral,
  which is what \<^verbatim>\<open>ParseFloat\<close> returns when that value is a float64 (every integer
  below \<open>2 ^ 53\<close>, as in the inputs below); the other spellings \<^verbatim>\<open>ParseFloat\<close>
  accepts (exponents, hexadecimal, \<^verbatim>\<open>Inf\<close>, \<^verbatim>\<open>NaN\<close>) are errors here. The
  general theorems hold for every parser.
\<close>

definition digitVal :: "char \<Rightarrow> nat option" where
  "digitVal c = (if c \<in> set ''0123456789'' then Some (of_char c - 48) else None)"

fun digitsVal :: "nat \<Rightarrow> string \<Rightarrow> nat option" where
  "digitsVal acc [] = Some acc"
| "digitsVal acc (c # cs) =
     (case digitVal c of None \<Rightarrow> None | Some d \<Rightarrow> digitsVal (10 * acc + d) cs)"

definition unsignedDecimal :: "string \<Rightarrow> real option" where
  "unsignedDecimal s =
     (let ip = takeWhile (\<lambda>c. c \<noteq> CHR ''.'') s;
          fp = drop 1 (dropWhile (\<lambda>c. c \<noteq> CHR ''.'') s)
      in if ip = [] \<and> fp = [] then None
         else case (digitsVal 0 ip, digitsVal 0 fp) of
                (Some a, Some b) \<Rightarrow> Some (real a + real b / 10 ^ length fp)
              | _ \<Rightarrow> None)"

definition parseDecimal :: "string \<Rightarrow> real option" where
  "parseDecimal s =
     (case s of
        [] \<Rightarrow> None
      | c # cs \<Rightarrow>
          if c = CHR ''-'' then map_option uminus (unsignedDecimal cs)
          else if c = CHR ''+'' then unsignedDecimal cs
          else unsignedDecimal s)"

section \<open>\<^verbatim>\<open>ingestFile\<close> and the loop of \<^verbatim>\<open>main\<close>\<close>

text \<open>
  The two HTTP calls of \<open>ingestFile\<close> are outside the program: \<open>RenderTemplate a k f\<close>
  and \<open>CreateExecution a k t\<close> are their results in the \<open>k\<close>-th call of \<open>ingestFile\<close>
  (counted from 0 within one run). The argument map of line 189 holds constants and the
  bucket and name of the part, so the part stands for it.
\<close>

record api =
  RenderTemplate :: "nat \<Rightarrow> File \<Rightarrow> error + string"
  CreateExecution :: "nat \<Rightarrow> string \<Rightarrow> error + string"

definition ingestFile :: "api \<Rightarrow> nat \<Rightarrow> File \<Rightarrow> error + string" where
  "ingestFile a k file =
     (case RenderTemplate a k file of
        Inl err \<Rightarrow> Inl err
      | Inr tmpl \<Rightarrow> CreateExecution a k tmpl)"

text \<open>
  The variables of lines 248 to 250, with what the run has done so far: the calls of
  \<open>splitFile\<close> and \<open>ingestFile\<close> in order, the lines printed at line 255 and the
  number of calls of \<open>ingestFile\<close>.
\<close>

datatype call = SplitCall File | IngestCall File

record mainState =
  filesExecs :: "string list list"
  fi :: File
  fp :: File
  err :: "error option"
  trace :: "call list"
  stdout :: "string list"
  ingests :: nat

text \<open>
  Lines 260 to 267, from part \<open>j\<close> on. The loop is left by \<^verbatim>\<open>break Files\<close> with
  \<open>err\<close> set; when it ends normally \<open>err\<close> is nil. Both indices are in range
  where the code assigns (\<open>i\<close> below the number of files, \<open>j\<close> below the number of
  parts), so the list updates are the assignments.
\<close>

fun ingestLoop :: "api \<Rightarrow> nat \<Rightarrow> nat \<Rightarrow> File list \<Rightarrow> mainState \<Rightarrow> mainState" where
  "ingestLoop a i j [] st = st"
| "ingestLoop a i j (p # ps) st =
     (let st1 = st\<lparr>fp := p, trace := trace st @ [IngestCall p], ingests := ingests st + 1\<rparr>
      in case ingestFile a (ingests st) p of
           Inl e \<Rightarrow> st1\<lparr>err := Some e\<rparr>
         | Inr ident \<Rightarrow>
             ingestLoop a i (j + 1) ps
               (st1\<lparr>err := None,
                    filesExecs := (filesExecs st1)[i := (filesExecs st1 ! i)[j := ident]]\<rparr>))"

text \<open>
  Lines 252 to 268, from file \<open>i\<close> on. \<open>split i f\<close> is what the \<open>i\<close>-th call of
  \<open>splitFile\<close> returns; a panic of \<open>splitFile\<close> ends the program (\<open>None\<close>).
\<close>

fun filesLoop ::
  "(nat \<Rightarrow> File \<Rightarrow> splitReturn) \<Rightarrow> api \<Rightarrow> nat \<Rightarrow> File list \<Rightarrow> mainState
     \<Rightarrow> mainState option" where
  "filesLoop split a i [] st = Some st"
| "filesLoop split a i (f # fs) st =
     (let st1 = st\<lparr>fi := f, trace := trace st @ [SplitCall f]\<rparr>
      in case split i f of
           Panicked \<Rightarrow> None
         | Returned parts e \<Rightarrow>
             (let st2 = st1\<lparr>err := e,
                            stdout := stdout st1 @
                              [Name f @ '': '' @ decimal (length parts) @ '' parts'']\<rparr>
              in if e \<noteq> None then Some st2
                 else (let st3 = ingestLoop a i 0 parts
                                   (st2\<lparr>filesExecs :=
                                          (filesExecs st2)[i := replicate (length parts) []]\<rparr>)
                       in if err st3 \<noteq> None then Some st3
                          else filesLoop split a (i + 1) fs st3)))"

text \<open>
  Lines 248 to 268. \<open>filesExecs\<close> starts as one nil slice for each file, \<open>fi\<close> and
  \<open>fp\<close> as the zero \<open>File\<close>, \<open>err\<close> as nil (\<open>findFiles\<close> returned no error).
\<close>

definition mainLoop ::
  "(nat \<Rightarrow> File \<Rightarrow> splitReturn) \<Rightarrow> api \<Rightarrow> File list \<Rightarrow> mainState option" where
  "mainLoop split a fs =
     filesLoop split a 0 fs
       \<lparr>filesExecs = replicate (length fs) [],
        fi = \<lparr>Bucket = [], Name = []\<rparr>,
        fp = \<lparr>Bucket = [], Name = []\<rparr>,
        err = None, trace = [], stdout = [], ingests = 0\<rparr>"

text \<open>The loop with \<open>splitFile\<close> itself, \<open>es i\<close> being the environment of its \<open>i\<close>-th call.\<close>

definition mainRun :: "(nat \<Rightarrow> env) \<Rightarrow> api \<Rightarrow> File list \<Rightarrow> mainState option" where
  "mainRun es a fs = mainLoop (\<lambda>i f. ret (splitFile (es i) f)) a fs"

text \<open>Lines 269 to 271: the file, the part and the error named in the diagnostic.\<close>

definition report :: "mainState \<Rightarrow> (File \<times> File \<times> error) option" where
  "report st = (case err st of None \<Rightarrow> None | Some e \<Rightarrow> Some (fi st, fp st, e))"

section \<open>Concrete inputs\<close>

text \<open>
  A source object in an environment where the parser is \<open>parseDecimal\<close> and no
  operation on the destination store fails. The file names below hold no \<^verbatim>\<open>%\<close>, so
  \<open>Sprintf\<close> is never asked.
\<close>

definition envOf :: "readEvent list \<Rightarrow> env" where
  "envOf evs =
     \<lparr>ParseFloat = parseDecimal, Sprintf = (\<lambda>format i. format),
      inClient = (\<lambda>f. Object evs), outFails = (\<lambda>n. False)\<rparr>"

definition fileA :: File where
  "fileA = \<lparr>Bucket = InBucket, Name = ''mx_sellout/20230801-001.csv''\<rparr>"

definition hdr :: "string list" where
  "hdr = [''id'', ''sku'', ''name'', ''store'', ''date'', ''qty'']"

definition rowPos :: "string list" where
  "rowPos = [''1'', ''s1'', ''cola'', ''t1'', ''20230801'', ''3'']"

definition rowZero :: "string list" where
  "rowZero = [''2'', ''s2'', ''agua'', ''t1'', ''20230801'', ''0'']"

definition rowNeg :: "string list" where
  "rowNeg = [''3'', ''s3'', ''jugo'', ''t1'', ''20230801'', ''-5'']"

definition rowBad :: "string list" where
  "rowBad = [''4'', ''s4'', ''te'', ''t1'', ''20230801'', ''abc'']"

definition hdrShort :: "string list" where
  "hdrShort = [''id'', ''qty'']"

definition rowShort :: "string list" where
  "rowShort = [''1'', ''3'']"

definition rowBig :: "string list" where
  "rowBig = [''5'', replicate MaxFileSize (CHR ''a''), ''cola'', ''t1'', ''20230801'', ''3'']"

definition rowExtra :: "string list" where
  "rowExtra = [''6'', ''s6'', ''cola'', ''t1'', ''20230801'', ''3'', ''x'']"

definition row60a :: "string list" where
  "row60a = [''0000000001'', ''aaaaaaaaaa'', ''bbbbbbbbbb'', ''cccccccccc'', ''dddddddddd'', ''0005'']"

definition row60b :: "string list" where
  "row60b = [''0000000002'', ''aaaaaaaaaa'', ''bbbbbbbbbb'', ''cccccccccc'', ''dddddddddd'', ''0005'']"

definition row60c :: "string list" where
  "row60c = [''0000000003'', ''aaaaaaaaaa'', ''bbbbbbbbbb'', ''cccccccccc'', ''dddddddddd'', ''0005'']"

text \<open>A run over three files: the calls of \<open>splitFile\<close> return two and three parts, and
  the fourth call of \<open>ingestFile\<close> (part index 1 of file index 1) fails.\<close>

definition fileB :: File where
  "fileB = \<lparr>Bucket = InBucket, Name = ''mx_sellout/20230801-002.csv''\<rparr>"

definition fileC :: File where
  "fileC = \<lparr>Bucket = InBucket, Name = ''mx_sellout/20230801-003.csv''\<rparr>"

definition partOf :: "File \<Rightarrow> string \<Rightarrow> File" where
  "partOf f suffix = \<lparr>Bucket = OutBucket, Name = Name f @ suffix\<rparr>"

definition splitW :: "nat \<Rightarrow> File \<Rightarrow> splitReturn" where
  "splitW i f =
     (if i = 0 then Returned [partOf f ''_part_000000.csv'', partOf f ''_part_000007.csv''] None
      else Returned [partOf f ''_part_000000.csv'', partOf f ''_part_000004.csv'',
                     partOf f ''_part_000009.csv''] None)"

definition apiW :: api where
  "apiW = \<lparr>RenderTemplate = (\<lambda>k f. Inr (Name f)),
           CreateExecution = (\<lambda>k t. if k = 3 then Inl IngestError else Inr (''exec:'' @ t))\<rparr>"

section \<open>Properties\<close>

subsection \<open>Evaluation of concrete runs\<close>

lemma pad6_values:
  "pad6 0 = ''000000''" "pad6 (Suc 0) = ''000001''" "pad6 (Suc (Suc 0)) = ''000002''"
  "pad6 2 = ''000002''"
  by code_simp+

lemma partFileName_plain:
  "CHR ''%'' \<notin> set name \<Longrightarrow> partFileName e name i = name @ ''_part_'' @ pad6 i @ ''.csv''"
  by (simp add: partFileName_def)

lemma partFileName_fileA_0:
  "partFileName e (Name fileA) 0 = ''mx_sellout/20230801-001.csv_part_000000.csv''"
  by (simp add: partFileName_def fileA_def pad6_values)

lemma partFileName_fileA_1:
  "partFileName e (Name fileA) (Suc 0) = ''mx_sellout/20230801-001.csv_part_000001.csv''"
  by (simp add: partFileName_def fileA_def pad6_values)

lemma partFileName_fileA_2:
  "partFileName e (Name fileA) (Suc (Suc 0)) = ''mx_sellout/20230801-001.csv_part_000002.csv''"
  "partFileName e (Name fileA) 2 = ''mx_sellout/20230801-001.csv_part_000002.csv''"
  by (simp_all add: partFileName_def fileA_def pad6_values)

lemmas split_eval = splitFile_def splitFileMax_def deferClose_def initState_def body_def
  rollover_def closeCurrent_def openPart_def processRecord_def writeRecord_def account_def
  keep_def threshold64_def finish_def allParts_def csvRead_def envOf_def MaxFileSize_def rowBytes_def
  partFileName_fileA_0 partFileName_fileA_1 partFileName_fileA_2

lemmas parse_eval = parseDecimal_def unsignedDecimal_def digitVal_def

lemma run_three_rows:
  "splitFile (envOf [Rec hdr, Rec rowZero, Rec rowPos, Rec rowNeg]) fileA =
    \<lparr>ret = Returned [] None,
     store = [\<lparr>pname = ''mx_sellout/20230801-001.csv_part_000000.csv'', prows = [hdr, rowPos], pstatus = Committed\<rparr>],
     reader = ReaderClosed\<rparr>"
  by (simp add: split_eval parse_eval hdr_def rowZero_def rowPos_def rowNeg_def)

lemma rowBytes_rowPos: "rowBytes rowPos = 24"
  by (simp add: rowBytes_def rowPos_def)

lemma rowBig_facts:
  "rowBytes rowBig = MaxFileSize + 22" "length rowBig = 6" "rowBig ! 5 = ''3''"
  by (simp_all add: rowBytes_def rowBig_def)

lemmas step_eval = body_def rollover_def closeCurrent_def openPart_def processRecord_def
  writeRecord_def account_def keep_def threshold64_def finish_def csvRead_def envOf_def initState_def
  partFileName_fileA_0 partFileName_fileA_1 partFileName_fileA_2

subsection \<open>Steps of the loop body\<close>

lemma allParts_Some: "wc s = Some p \<Longrightarrow> allParts s = closedParts s @ [p]"
  by (simp add: allParts_def)

lemma allParts_None: "wc s = None \<Longrightarrow> allParts s = closedParts s"
  by (simp add: allParts_def)

lemma closeCurrent_Inr:
  assumes "closeCurrent e s = Inr s1"
  shows "wc s1 = None \<and> map prows (allParts s1) = map prows (allParts s)
         \<and> map pname (allParts s1) = map pname (allParts s)
         \<and> bytesWritten s1 = bytesWritten s"
  using assms
  by (auto simp: closeCurrent_def allParts_def split: option.splits if_splits)

lemma openPart_Inr:
  assumes "openPart e h n i s = Inr s1" and "wc s = None"
  shows "\<exists>p. wc s1 = Some p \<and> prows p = [h] \<and> pname p = partFileName e n i \<and> closedParts s1 = closedParts s \<and> bytesWritten s1 = 0"
  using assms
  by (auto simp: openPart_def Let_def split: if_splits)

lemma rollover_Inr:
  assumes "rollover e m h n i s = Inr s1"
  shows "(wc s \<noteq> None \<and> \<not> bytesWritten s > m \<and> s1 = s)
       \<or> ((wc s = None \<or> bytesWritten s > m) \<and> map prows (allParts s1) = map prows (allParts s) @ [[h]]
           \<and> map pname (allParts s1) = map pname (allParts s) @ [partFileName e n i] \<and> bytesWritten s1 = 0 \<and> wc s1 \<noteq> None)"
proof (cases "wc s = None \<or> bytesWritten s > m")
  case False
  with assms show ?thesis by (simp add: rollover_def)
next
  case True
  with assms obtain s0 where c: "closeCurrent e s = Inr s0" and o: "openPart e h n i s0 = Inr s1"
    by (auto simp: rollover_def split: sum.splits)
  from closeCurrent_Inr[OF c] openPart_Inr[OF o] True show ?thesis
    by (auto simp: allParts_def)
qed

lemma processRecord_Inr:
  assumes "processRecord e r s = Inr s1" and "wc s = Some p"
  shows "closedParts s1 = closedParts s
       \<and> wc s1 = Some (p\<lparr>prows := prows p @ (if included e r then [r] else [])\<rparr>)
       \<and> bytesWritten s1 = bytesWritten s + (if included e r then rowBytes r else 0)
       \<and> 6 \<le> length r"
  using assms
  by (auto simp: processRecord_def writeRecord_def account_def included_def split: if_splits option.splits sum.splits)


lemma dataRows_map_prows: "dataRows ps = concat (map tl (map prows ps))"
  by (simp add: dataRows_def comp_def)

lemma headed_iff: "headed h ps = list_all (\<lambda>rs. take 1 rs = [h]) (map prows ps)"
  by (simp add: headed_def list_all_iff)

lemma dataRows_cong: "map prows xs = map prows ys \<Longrightarrow> dataRows xs = dataRows ys"
  unfolding dataRows_map_prows by (rule arg_cong)

lemma headed_cong: "map prows xs = map prows ys \<Longrightarrow> headed h xs = headed h ys"
  unfolding headed_iff by (rule arg_cong)

lemma dataRows_new_part:
  assumes "map prows xs = map prows ys @ [[h]]"
  shows "dataRows xs = dataRows ys"
proof -
  have "dataRows xs = concat (map tl (map prows ys @ [[h]]))"
    unfolding dataRows_map_prows using assms by (rule arg_cong)
  also have "\<dots> = dataRows ys"
    unfolding dataRows_map_prows by simp
  finally show ?thesis .
qed

lemma headed_new_part:
  assumes "map prows xs = map prows ys @ [[h]]"
  shows "headed h xs = headed h ys"
proof -
  have "headed h xs = list_all (\<lambda>rs. take 1 rs = [h]) (map prows ys @ [[h]])"
    unfolding headed_iff using assms by (rule arg_cong)
  also have "\<dots> = headed h ys"
    unfolding headed_iff by simp
  finally show ?thesis .
qed

lemma rollover_rows:
  assumes ro: "rollover e m h n i s = Inr s1" and hd: "headed h (allParts s)"
  shows "headed h (allParts s1) \<and> dataRows (allParts s1) = dataRows (allParts s) \<and> wc s1 \<noteq> None"
proof -
  from rollover_Inr[OF ro] consider
      (same) "s1 = s" "wc s \<noteq> None"
    | (new) "map prows (allParts s1) = map prows (allParts s) @ [[h]]" "wc s1 \<noteq> None"
    by blast
  then show ?thesis
  proof cases
    case same
    with hd show ?thesis by simp
  next
    case new
    from headed_new_part[OF new(1)] dataRows_new_part[OF new(1)] hd new(2)
    show ?thesis by simp
  qed
qed

lemma body_Inr:
  assumes b: "body e m h n i r s = Inr s2" and hd: "headed h (allParts s)"
  shows "headed h (allParts s2) \<and> wc s2 \<noteq> None
       \<and> dataRows (allParts s2) = dataRows (allParts s) @ (if included e r then [r] else [])
       \<and> 6 \<le> length r"
proof -
  from b obtain s1 where ro: "rollover e m h n i s = Inr s1" and pr: "processRecord e r s1 = Inr s2"
    by (auto simp: body_def split: sum.splits)
  from rollover_rows[OF ro hd] have h1: "headed h (allParts s1)"
    and d1: "dataRows (allParts s1) = dataRows (allParts s)" and "wc s1 \<noteq> None"
    by auto
  then obtain p where p: "wc s1 = Some p" by auto
  from h1 p have ph: "take 1 (prows p) = [h]" and hc: "headed h (closedParts s1)"
    by (simp_all add: allParts_def headed_def)
  from ph obtain rest where ne: "prows p = h # rest" by (cases "prows p") auto
  from processRecord_Inr[OF pr p] have
    c2: "closedParts s2 = closedParts s1"
    and w2: "wc s2 = Some (p\<lparr>prows := prows p @ (if included e r then [r] else [])\<rparr>)"
    and len: "6 \<le> length r"
    by auto
  have a1: "allParts s1 = closedParts s1 @ [p]" using p by (simp add: allParts_def)
  have a2: "allParts s2 = closedParts s1 @ [p\<lparr>prows := prows p @ (if included e r then [r] else [])\<rparr>]"
    using c2 w2 by (simp add: allParts_def)
  have "headed h (allParts s2)"
    unfolding a2 using hc ne by (simp add: headed_def)
  moreover have "dataRows (allParts s2) = dataRows (allParts s1) @ (if included e r then [r] else [])"
    unfolding a1 a2 using ne by (simp add: dataRows_def)
  ultimately show ?thesis using d1 len w2 by simp
qed

lemma closeCurrent_Inl: "closeCurrent e s = Inl (r, s') \<Longrightarrow>
    r = Returned (files s) (Some CloseError) \<and> map prows (allParts s') = map prows (allParts s)"
  by (auto simp: closeCurrent_def allParts_def split: option.splits if_splits)

lemma openPart_Inl: "openPart e h n i s = Inl (r, s') \<Longrightarrow>
    r = Returned (files s) (Some WriteError)"
  by (auto simp: openPart_def Let_def split: if_splits)

lemma rollover_Inl: "rollover e m h n i s = Inl (r, s') \<Longrightarrow> \<exists>fs err. r = Returned fs (Some err)"
  by (auto simp: rollover_def split: if_splits sum.splits dest: closeCurrent_Inl openPart_Inl)

lemma processRecord_Inl: "processRecord e rc s = Inl (r, s') \<Longrightarrow>
    (r = Panicked \<and> length rc \<le> 5) \<or> (\<exists>err. r = Returned (files s) (Some err))"
  by (auto simp: processRecord_def writeRecord_def split: if_splits option.splits sum.splits)

lemma body_Inl: "body e m h n i rc s = Inl (r, s') \<Longrightarrow>
    (r = Panicked \<and> length rc \<le> 5) \<or> (\<exists>fs err. r = Returned fs (Some err))"
  by (auto simp: body_def split: sum.splits dest: rollover_Inl processRecord_Inl)

lemma finish_rows: "finish e s = (r, s') \<Longrightarrow>
   r = Returned (files s) None \<and> map prows (allParts s') = map prows (allParts s)
   \<and> map pname (allParts s') = map pname (allParts s)"
  by (auto simp: finish_def allParts_def split: option.splits)

lemma loop_rows:
  "loop e m h n i s evs = (Returned fs None, s') \<Longrightarrow> headed h (allParts s) \<Longrightarrow>
     dataRows (allParts s') = dataRows (allParts s) @ filter (included e) (recordsOf evs)
     \<and> headed h (allParts s')"
proof (induction evs arbitrary: s i)
  case Nil
  then have "finish e s = (Returned fs None, s')" by simp
  from finish_rows[OF this] have "map prows (allParts s') = map prows (allParts s)" by simp
  from dataRows_cong[OF this] headed_cong[OF this, of h] Nil.prems(2) show ?case by simp
next
  case (Cons ev evs)
  from Cons.prems(1) obtain r where r: "ev = Rec r" "csvRead h ev = Inr r"
    by (cases ev) (auto simp: csvRead_def split: if_splits)
  have "\<exists>s1. body e m h n i r s = Inr s1"
  proof (cases "body e m h n i r s")
    case (Inl x)
    obtain rr ss where x: "x = (rr, ss)" by (cases x)
    from Cons.prems(1) r Inl x have "rr = Returned fs None" by simp
    with body_Inl[of e m h n i r s rr ss] Inl x show ?thesis by auto
  next
    case (Inr s1) then show ?thesis by blast
  qed
  then obtain s1 where b: "body e m h n i r s = Inr s1" by blast
  with Cons.prems(1) r have l: "loop e m h n (i + 1) s1 evs = (Returned fs None, s')"
    by simp
  from body_Inr[OF b Cons.prems(2)] have h1: "headed h (allParts s1)"
    and d1: "dataRows (allParts s1) = dataRows (allParts s) @ (if included e r then [r] else [])"
    by auto
  from Cons.IH[OF l h1] d1 r show ?case by simp
qed

lemma splitFileMax_Object:
  assumes "inClient e file = Object (Rec h # rest)"
  shows "\<exists>r s. loop e m h (Name file) 0 initState rest = (r, s)
           \<and> splitFileMax m e file = \<lparr>ret = r, store = allParts s, reader = ReaderClosed\<rparr>"
proof -
  obtain r s where l: "loop e m h (Name file) 0 initState rest = (r, s)"
    by (cases "loop e m h (Name file) 0 initState rest")
  with assms show ?thesis by (simp add: splitFileMax_def deferClose_def)
qed

lemma splitFileMax_rows:
  assumes "ret (splitFileMax m e file) = Returned fs None"
  shows "dataRows (store (splitFileMax m e file)) = filter (included e) (sourceRows (inClient e file))
         \<and> headed (hd (recordsOf (case inClient e file of Object evs \<Rightarrow> evs | NoObject \<Rightarrow> []))) (store (splitFileMax m e file))"
proof (cases "inClient e file")
  case NoObject
  with assms show ?thesis by (simp add: splitFileMax_def)
next
  case (Object evs)
  show ?thesis
  proof (cases evs)
    case Nil
    with Object assms show ?thesis by (simp add: splitFileMax_def deferClose_def)
  next
    case (Cons ev rest)
    show ?thesis
    proof (cases ev)
      case ReadFail
      with Object Cons assms show ?thesis by (simp add: splitFileMax_def deferClose_def)
    next
      case (Rec h)
      obtain r s where l: "loop e m h (Name file) 0 initState rest = (r, s)"
        by (cases "loop e m h (Name file) 0 initState rest")
      with Object Cons Rec have sf: "splitFileMax m e file = \<lparr>ret = r, store = allParts s, reader = ReaderClosed\<rparr>"
        by (simp add: splitFileMax_def deferClose_def)
      with assms have r: "r = Returned fs None" by simp
      have "headed h (allParts initState)" by (simp add: headed_def allParts_def initState_def)
      from loop_rows[OF l[unfolded r] this]
      have "dataRows (allParts s) = filter (included e) (recordsOf rest)" and "headed h (allParts s)"
        by (simp_all add: dataRows_def allParts_def initState_def)
      with sf Object Cons Rec show ?thesis by (simp add: sourceRows_def)
    qed
  qed
qed

subsection \<open>The rows of the parts\<close>

text \<open>
  What the code keeps. When no operation on the destination store fails and the call
  returns without an error, every part it created is committed, and the data rows of the
  parts, part after part and without the first row of each, are the data records of the
  source that pass the test of the code (\<open>included\<close>), in the order of the source.
\<close>

lemma body_committed:
  assumes "body e m h n i rc s = Inr s2"
    and "list_all (\<lambda>p. pstatus p = Committed) (closedParts s)"
  shows "list_all (\<lambda>p. pstatus p = Committed) (closedParts s2)"
  using assms
  by (auto simp: body_def rollover_def closeCurrent_def openPart_def processRecord_def
        writeRecord_def account_def Let_def
      split: if_splits option.splits sum.splits)

lemma finish_committed:
  assumes "finish e s = (r, s')" and "\<forall>k. \<not> outFails e k"
    and "list_all (\<lambda>p. pstatus p = Committed) (closedParts s)"
  shows "list_all (\<lambda>p. pstatus p = Committed) (allParts s')"
  using assms by (auto simp: finish_def allParts_def split: option.splits)

lemma loop_committed:
  "loop e m h n i s evs = (Returned fs None, s') \<Longrightarrow> \<forall>k. \<not> outFails e k \<Longrightarrow>
   list_all (\<lambda>p. pstatus p = Committed) (closedParts s) \<Longrightarrow>
   list_all (\<lambda>p. pstatus p = Committed) (allParts s')"
proof (induction evs arbitrary: s i)
  case Nil
  then have "finish e s = (Returned fs None, s')" by simp
  from finish_committed[OF this Nil.prems(2,3)] show ?case .
next
  case (Cons ev evs)
  from Cons.prems(1) obtain r where r: "csvRead h ev = Inr r"
    by (cases "csvRead h ev") auto
  have "\<exists>s1. body e m h n i r s = Inr s1"
  proof (cases "body e m h n i r s")
    case (Inl x)
    obtain rr ss where x: "x = (rr, ss)" by (cases x)
    from Cons.prems(1) r Inl x have "rr = Returned fs None" by simp
    with body_Inl[of e m h n i r s rr ss] Inl x show ?thesis by auto
  next
    case (Inr s1) then show ?thesis by blast
  qed
  then obtain s1 where b: "body e m h n i r s = Inr s1" by blast
  with Cons.prems(1) r have l: "loop e m h n (i + 1) s1 evs = (Returned fs None, s')" by simp
  from Cons.IH[OF l Cons.prems(2) body_committed[OF b Cons.prems(3)]] show ?case .
qed

lemma committedParts_all:
  "list_all (\<lambda>p. pstatus p = Committed) ps \<Longrightarrow> committedParts ps = ps"
  by (induction ps) (auto simp: committedParts_def)

lemma committed_parts_hold_kept_rows:
  assumes ok: "ret (splitFileMax m e file) = Returned fs None"
    and nofail: "\<forall>k. \<not> outFails e k"
  shows "committedParts (store (splitFileMax m e file)) = store (splitFileMax m e file)
       \<and> dataRows (committedParts (store (splitFileMax m e file)))
           = filter (included e) (sourceRows (inClient e file))"
proof -
  have all: "list_all (\<lambda>p. pstatus p = Committed) (store (splitFileMax m e file))"
  proof (cases "inClient e file")
    case NoObject
    then show ?thesis by (simp add: splitFileMax_def)
  next
    case (Object evs)
    show ?thesis
    proof (cases evs)
      case Nil
      with Object show ?thesis by (simp add: splitFileMax_def deferClose_def)
    next
      case (Cons ev rest)
      show ?thesis
      proof (cases ev)
        case ReadFail
        with Object Cons show ?thesis by (simp add: splitFileMax_def deferClose_def)
      next
        case (Rec h)
        with Object Cons have src: "inClient e file = Object (Rec h # rest)" by simp
        from splitFileMax_Object[OF src, of m] obtain r s where
          l: "loop e m h (Name file) 0 initState rest = (r, s)"
          and sf: "splitFileMax m e file = \<lparr>ret = r, store = allParts s, reader = ReaderClosed\<rparr>"
          by blast
        from sf ok have r: "r = Returned fs None" by simp
        from loop_committed[OF l[unfolded r] nofail] sf show ?thesis by (simp add: initState_def)
      qed
    qed
  qed
  from committedParts_all[OF all] splitFileMax_rows[OF ok] show ?thesis by simp
qed

text \<open>
  Claim C2, at a source with the header and three data records whose quantities are 0, 3
  and -5, with no failure of the destination store. The records that pass the inclusion
  filter of the claim (absolute value above 0.0001) are the second and the third, in that
  order. The call returns without an error and commits one part, whose data rows are the
  second record alone: the record with quantity -5 is lost. The test of the code has no
  absolute value (claim C3); apart from that test the rows are kept, in order and once,
  as \<open>committed_parts_hold_kept_rows\<close> says.
\<close>

theorem negative_rows_missing_from_parts:
  "outFails (envOf [Rec hdr, Rec rowZero, Rec rowPos, Rec rowNeg]) = (\<lambda>k. False)
   \<and> splitFile (envOf [Rec hdr, Rec rowZero, Rec rowPos, Rec rowNeg]) fileA =
       \<lparr>ret = Returned [] None,
        store = [\<lparr>pname = ''mx_sellout/20230801-001.csv_part_000000.csv'',
                  prows = [hdr, rowPos], pstatus = Committed\<rparr>],
        reader = ReaderClosed\<rparr>
   \<and> filter (includedSpec (envOf [Rec hdr, Rec rowZero, Rec rowPos, Rec rowNeg]))
         (sourceRows (inClient (envOf [Rec hdr, Rec rowZero, Rec rowPos, Rec rowNeg]) fileA))
       = [rowPos, rowNeg]
   \<and> dataRows (committedParts
         (store (splitFile (envOf [Rec hdr, Rec rowZero, Rec rowPos, Rec rowNeg]) fileA)))
       = [rowPos]"
proof -
  have a: "outFails (envOf [Rec hdr, Rec rowZero, Rec rowPos, Rec rowNeg]) = (\<lambda>k. False)"
    by (simp add: envOf_def)
  have b: "filter (includedSpec (envOf [Rec hdr, Rec rowZero, Rec rowPos, Rec rowNeg]))
         (sourceRows (inClient (envOf [Rec hdr, Rec rowZero, Rec rowPos, Rec rowNeg]) fileA))
       = [rowPos, rowNeg]"
    by (simp add: envOf_def sourceRows_def includedSpec_def parse_eval
          rowZero_def rowPos_def rowNeg_def)
  have c: "dataRows (committedParts
         (store (splitFile (envOf [Rec hdr, Rec rowZero, Rec rowPos, Rec rowNeg]) fileA)))
       = [rowPos]"
    by (simp add: run_three_rows committedParts_def dataRows_def)
  from a b c run_three_rows show ?thesis by simp
qed

subsection \<open>The header of every part\<close>

lemma openPart_Inl_parts:
  assumes "openPart e h n i s = Inl (r, s')" and "wc s = None"
  shows "r = Returned (files s) (Some WriteError)
         \<and> (\<exists>p. allParts s' = allParts s @ [p] \<and> prows p = [] \<and> pstatus p = Open)"
  using assms by (auto simp: openPart_def Let_def allParts_def split: if_splits)

lemma processRecord_Inl_parts:
  "processRecord e rc s = Inl (r, s') \<Longrightarrow> allParts s' = allParts s"
  by (auto simp: processRecord_def writeRecord_def allParts_def split: if_splits option.splits sum.splits)

lemma rollover_Inl_parts:
  assumes ro: "rollover e m h n i s = Inl (r, s')" and hd: "headed h (allParts s)"
  shows "headed h (allParts s')
       \<or> ((\<exists>fs. r = Returned fs (Some WriteError))
           \<and> (\<exists>ps p. allParts s' = ps @ [p] \<and> headed h ps \<and> prows p = [] \<and> pstatus p = Open))"
proof (cases "closeCurrent e s")
  case (Inl x)
  with ro have "closeCurrent e s = Inl (r, s')"
    by (auto simp: rollover_def split: if_splits)
  from closeCurrent_Inl[OF this] have "map prows (allParts s') = map prows (allParts s)" by simp
  from headed_cong[OF this, of h] hd show ?thesis by simp
next
  case (Inr s0)
  with ro have op: "openPart e h n i s0 = Inl (r, s')"
    by (auto simp: rollover_def split: if_splits)
  from closeCurrent_Inr[OF Inr] have w0: "wc s0 = None"
    and "map prows (allParts s0) = map prows (allParts s)" by auto
  from headed_cong[OF this(2), of h] hd have h0: "headed h (allParts s0)" by simp
  from openPart_Inl_parts[OF op w0] h0 show ?thesis by blast
qed

lemma body_Inl_parts:
  assumes b: "body e m h n i rc s = Inl (r, s')" and hd: "headed h (allParts s)"
  shows "headed h (allParts s')
       \<or> ((\<exists>fs. r = Returned fs (Some WriteError))
           \<and> (\<exists>ps p. allParts s' = ps @ [p] \<and> headed h ps \<and> prows p = [] \<and> pstatus p = Open))"
proof (cases "rollover e m h n i s")
  case (Inl x)
  with b have "rollover e m h n i s = Inl (r, s')" by (simp add: body_def)
  from rollover_Inl_parts[OF this hd] show ?thesis .
next
  case (Inr s1)
  with b have pr: "processRecord e rc s1 = Inl (r, s')" by (simp add: body_def)
  from rollover_rows[OF Inr hd] processRecord_Inl_parts[OF pr] show ?thesis by simp
qed

lemma loop_parts:
  "loop e m h n i s evs = (r, s') \<Longrightarrow> headed h (allParts s) \<Longrightarrow>
     headed h (allParts s')
       \<or> ((\<exists>fs. r = Returned fs (Some WriteError))
           \<and> (\<exists>ps p. allParts s' = ps @ [p] \<and> headed h ps \<and> prows p = [] \<and> pstatus p = Open))"
proof (induction evs arbitrary: s i)
  case Nil
  then have "finish e s = (r, s')" by simp
  from finish_rows[OF this] have "map prows (allParts s') = map prows (allParts s)" by simp
  from headed_cong[OF this, of h] Nil.prems(2) show ?case by simp
next
  case (Cons ev evs)
  show ?case
  proof (cases "csvRead h ev")
    case (Inl x)
    with Cons.prems show ?thesis by simp
  next
    case (Inr rc)
    show ?thesis
    proof (cases "body e m h n i rc s")
      case (Inl x)
      with Cons.prems(1) Inr have "body e m h n i rc s = Inl (r, s')" by simp
      from body_Inl_parts[OF this Cons.prems(2)] show ?thesis .
    next
      case (Inr s1)
      with Cons.prems(1) \<open>csvRead h ev = Inr rc\<close>
      have l: "loop e m h n (i + 1) s1 evs = (r, s')" by simp
      from body_Inr[OF Inr Cons.prems(2)] have "headed h (allParts s1)" by simp
      from Cons.IH[OF l this] show ?thesis .
    qed
  qed
qed

lemma headed_initState: "headed h (allParts initState)"
  by (simp add: headed_def allParts_def initState_def)

lemma headed_mem: "headed h ps \<Longrightarrow> p \<in> set ps \<Longrightarrow> \<exists>rest. prows p = h # rest"
proof -
  assume "headed h ps" "p \<in> set ps"
  then have "take 1 (prows p) = [h]" by (simp add: headed_def list_all_iff)
  then show ?thesis by (cases "prows p") auto
qed

text \<open>
  Claim C7. Every part that \<open>splitFile\<close> leaves in the destination store has the header
  of the source as its first row, unchanged. The one part without it is a part whose
  header write failed: it holds no row at all, its handle was never closed, and the call
  returned that write error. The header is written when the part is opened, before any
  data row: when \<open>openPart\<close> goes on, the new current part holds the header and nothing
  else.
\<close>

theorem every_part_starts_with_header:
  assumes src: "inClient e file = Object (Rec header # evs)"
  shows "(p \<in> set (store (splitFile e file)) \<longrightarrow>
            (\<exists>rest. prows p = header # rest)
            \<or> (prows p = [] \<and> pstatus p = Open
               \<and> (\<exists>fs. ret (splitFile e file) = Returned fs (Some WriteError))))
       \<and> (openPart e header n i s = Inr s' \<longrightarrow> (\<exists>q. wc s' = Some q \<and> prows q = [header]))"
proof
  from splitFileMax_Object[OF src, of MaxFileSize] obtain r st where
    l: "loop e MaxFileSize header (Name file) 0 initState evs = (r, st)"
    and sf: "splitFile e file = \<lparr>ret = r, store = allParts st, reader = ReaderClosed\<rparr>"
    by (auto simp: splitFile_def)
  show "p \<in> set (store (splitFile e file)) \<longrightarrow>
            (\<exists>rest. prows p = header # rest)
            \<or> (prows p = [] \<and> pstatus p = Open
               \<and> (\<exists>fs. ret (splitFile e file) = Returned fs (Some WriteError)))"
  proof
    assume "p \<in> set (store (splitFile e file))"
    with sf have mem: "p \<in> set (allParts st)" by simp
    from loop_parts[OF l headed_initState] show "(\<exists>rest. prows p = header # rest)
            \<or> (prows p = [] \<and> pstatus p = Open
               \<and> (\<exists>fs. ret (splitFile e file) = Returned fs (Some WriteError)))"
    proof
      assume "headed header (allParts st)"
      from headed_mem[OF this mem] show ?thesis by simp
    next
      assume "(\<exists>fs. r = Returned fs (Some WriteError))
           \<and> (\<exists>ps p. allParts st = ps @ [p] \<and> headed header ps \<and> prows p = [] \<and> pstatus p = Open)"
      then obtain fs ps q where r: "r = Returned fs (Some WriteError)"
        and a: "allParts st = ps @ [q]" and hp: "headed header ps"
        and q: "prows q = []" "pstatus q = Open" by blast
      from mem a have "p \<in> set ps \<or> p = q" by auto
      then show ?thesis
      proof
        assume "p \<in> set ps"
        from headed_mem[OF hp this] show ?thesis by simp
      next
        assume "p = q"
        with q r sf show ?thesis by simp
      qed
    qed
  qed
next
  show "openPart e header n i s = Inr s' \<longrightarrow> (\<exists>q. wc s' = Some q \<and> prows q = [header])"
    by (auto simp: openPart_def Let_def split: if_splits)
qed

theorem every_part_starts_with_header_witness:
  "inClient (envOf [Rec hdr, Rec rowZero, Rec rowPos, Rec rowNeg]) fileA
      = Object (Rec hdr # [Rec rowZero, Rec rowPos, Rec rowNeg])
   \<and> \<lparr>pname = ''mx_sellout/20230801-001.csv_part_000000.csv'', prows = [hdr, rowPos],
       pstatus = Committed\<rparr>
      \<in> set (store (splitFile (envOf [Rec hdr, Rec rowZero, Rec rowPos, Rec rowNeg]) fileA))
   \<and> openPart (envOf [Rec hdr, Rec rowZero, Rec rowPos, Rec rowNeg]) hdr (Name fileA) 0 initState
      = Inr (initState\<lparr>wc := Some \<lparr>pname = ''mx_sellout/20230801-001.csv_part_000000.csv'', prows = [hdr],
                                   pstatus = Open\<rparr>,
                        bytesWritten := 0, ops := 1\<rparr>)
   \<and> (\<exists>rest. prows \<lparr>pname = ''mx_sellout/20230801-001.csv_part_000000.csv'',
                     prows = [hdr, rowPos], pstatus = Committed\<rparr> = hdr # rest)"
proof -
  have src: "inClient (envOf [Rec hdr, Rec rowZero, Rec rowPos, Rec rowNeg]) fileA
      = Object (Rec hdr # [Rec rowZero, Rec rowPos, Rec rowNeg])"
    by (simp add: envOf_def)
  have op: "openPart (envOf [Rec hdr, Rec rowZero, Rec rowPos, Rec rowNeg]) hdr (Name fileA) 0 initState
      = Inr (initState\<lparr>wc := Some \<lparr>pname = ''mx_sellout/20230801-001.csv_part_000000.csv'', prows = [hdr],
                                   pstatus = Open\<rparr>,
                        bytesWritten := 0, ops := 1\<rparr>)"
    by (simp add: openPart_def envOf_def initState_def partFileName_fileA_0)
  from every_part_starts_with_header[OF src,
      of "\<lparr>pname = ''mx_sellout/20230801-001.csv_part_000000.csv'', prows = [hdr, rowPos],
            pstatus = Committed\<rparr>"]
    src op
  show ?thesis by (simp add: run_three_rows)
qed

subsection \<open>The index expression\<close>

lemma loop_no_panic:
  "loop e m h n i s evs = (r, s') \<Longrightarrow> 6 \<le> length h \<Longrightarrow> r \<noteq> Panicked"
proof (induction evs arbitrary: s i)
  case Nil
  then show ?case by (auto simp: finish_def)
next
  case (Cons ev evs)
  show ?case
  proof (cases "csvRead h ev")
    case (Inl x)
    with Cons.prems show ?thesis by auto
  next
    case (Inr rc)
    then have len: "length rc = length h"
      by (auto simp: csvRead_def split: readEvent.splits if_splits)
    show ?thesis
    proof (cases "body e m h n i rc s")
      case (Inl x)
      with Cons.prems(1) Inr have "body e m h n i rc s = Inl (r, s')" by simp
      from body_Inl[OF this] len Cons.prems(2) show ?thesis by auto
    next
      case (Inr s1)
      with Cons.prems(1) \<open>csvRead h ev = Inr rc\<close>
      have l: "loop e m h n (i + 1) s1 evs = (r, s')" by simp
      from Cons.IH[OF l Cons.prems(2)] show ?thesis .
    qed
  qed
qed

text \<open>
  Claim C10. \<open>splitFile\<close> reads \<^verbatim>\<open>record[5]\<close> without a check of the length. The
  CSV reader gives every record the number of fields of the header, so: when the header
  has at least six fields no call panics; when it has fewer than six and a first data
  record reaches line 159 (it is read, and the header of the first part is written), the
  call panics instead of returning an error.
\<close>

theorem record_index_panics_iff_short:
  assumes src: "inClient e file = Object (Rec header # evs)"
  shows "(6 \<le> length header \<longrightarrow> ret (splitFile e file) \<noteq> Panicked)
       \<and> (length header < 6 \<and> \<not> outFails e 0
            \<and> (\<exists>record rest. evs = Rec record # rest \<and> length record = length header)
          \<longrightarrow> ret (splitFile e file) = Panicked)"
proof
  from splitFileMax_Object[OF src, of MaxFileSize] obtain r st where
    l: "loop e MaxFileSize header (Name file) 0 initState evs = (r, st)"
    and sf: "splitFile e file = \<lparr>ret = r, store = allParts st, reader = ReaderClosed\<rparr>"
    by (auto simp: splitFile_def)
  show "6 \<le> length header \<longrightarrow> ret (splitFile e file) \<noteq> Panicked"
    using loop_no_panic[OF l] sf by simp
  show "length header < 6 \<and> \<not> outFails e 0
            \<and> (\<exists>record rest. evs = Rec record # rest \<and> length record = length header)
          \<longrightarrow> ret (splitFile e file) = Panicked"
  proof
    assume a: "length header < 6 \<and> \<not> outFails e 0
            \<and> (\<exists>record rest. evs = Rec record # rest \<and> length record = length header)"
    then obtain rc rest where ev: "evs = Rec rc # rest"
      and len: "length rc = length header" by blast
    from a len have "body e MaxFileSize header (Name file) 0 rc initState
        = Inl (Panicked, initState\<lparr>wc := Some \<lparr>pname = partFileName e (Name file) 0, prows = [header], pstatus = Open\<rparr>,
                                  bytesWritten := 0, ops := 1\<rparr>)"
      by (simp add: body_def rollover_def closeCurrent_def openPart_def processRecord_def initState_def)
    with l ev len have "r = Panicked" by (simp add: csvRead_def)
    with sf show "ret (splitFile e file) = Panicked" by simp
  qed
qed

theorem record_index_panics_iff_short_witness:
  "inClient (envOf [Rec hdr, Rec rowPos]) fileA = Object (Rec hdr # [Rec rowPos])
   \<and> 6 \<le> length hdr
   \<and> ret (splitFile (envOf [Rec hdr, Rec rowPos]) fileA) \<noteq> Panicked
   \<and> inClient (envOf [Rec hdrShort, Rec rowShort]) fileA = Object (Rec hdrShort # [Rec rowShort])
   \<and> length hdrShort < 6 \<and> length rowShort = length hdrShort
   \<and> \<not> outFails (envOf [Rec hdrShort, Rec rowShort]) 0
   \<and> ret (splitFile (envOf [Rec hdrShort, Rec rowShort]) fileA) = Panicked"
proof -
  have a: "inClient (envOf [Rec hdr, Rec rowPos]) fileA = Object (Rec hdr # [Rec rowPos])"
    by (simp add: envOf_def)
  have b: "inClient (envOf [Rec hdrShort, Rec rowShort]) fileA
             = Object (Rec hdrShort # [Rec rowShort])"
    by (simp add: envOf_def)
  have c: "\<not> outFails (envOf [Rec hdrShort, Rec rowShort]) 0"
    by (simp add: envOf_def)
  from record_index_panics_iff_short[OF a] record_index_panics_iff_short[OF b] a b c
  show ?thesis by (simp add: hdr_def hdrShort_def rowShort_def)
qed

subsection \<open>The accumulated byte count\<close>

text \<open>
  Claim C8. One iteration of the loop that goes on to the next record is the rollover
  check followed by the handling of the record. In the rollover check \<open>bytesWritten\<close>
  becomes 0 exactly when a new part is opened (the number of parts grows by one);
  otherwise the parts and the count are unchanged. In the handling of the record no part
  is opened and the count grows by the length of the comma-joined record plus one when
  the record passes the inclusion test, and by nothing when it does not. So between two
  resets the count never decreases.
\<close>

theorem bytesWritten_reset_and_growth:
  assumes b: "body e m h n i rc s = Inr s2"
  shows "\<exists>s1. rollover e m h n i s = Inr s1 \<and> processRecord e rc s1 = Inr s2
       \<and> (if wc s = None \<or> m < bytesWritten s
          then length (allParts s1) = length (allParts s) + 1 \<and> bytesWritten s1 = 0
          else allParts s1 = allParts s \<and> bytesWritten s1 = bytesWritten s)
       \<and> length (allParts s2) = length (allParts s1)
       \<and> bytesWritten s2 = bytesWritten s1 + (if included e rc then length (join rc) + 1 else 0)"
proof -
  from b obtain s1 where ro: "rollover e m h n i s = Inr s1" and pr: "processRecord e rc s1 = Inr s2"
    by (auto simp: body_def split: sum.splits)
  from rollover_Inr[OF ro] have w1: "wc s1 \<noteq> None" by auto
  then obtain p where p: "wc s1 = Some p" by auto
  have A: "if wc s = None \<or> m < bytesWritten s
          then length (allParts s1) = length (allParts s) + 1 \<and> bytesWritten s1 = 0
          else allParts s1 = allParts s \<and> bytesWritten s1 = bytesWritten s"
  proof (cases "wc s = None \<or> m < bytesWritten s")
    case True
    with rollover_Inr[OF ro] have
      n: "map pname (allParts s1) = map pname (allParts s) @ [partFileName e n i]"
      and z: "bytesWritten s1 = 0" by auto
    from arg_cong[OF n, of length] have "length (allParts s1) = length (allParts s) + 1" by simp
    with z True show ?thesis by simp
  next
    case False
    with rollover_Inr[OF ro] have "s1 = s" by auto
    with False show ?thesis by simp
  qed
  from processRecord_Inr[OF pr p] p have
    B: "length (allParts s2) = length (allParts s1)"
    and C: "bytesWritten s2 = bytesWritten s1 + (if included e rc then length (join rc) + 1 else 0)"
    by (auto simp: allParts_def rowBytes_def)
  from ro pr A B C show ?thesis by blast
qed

theorem bytesWritten_reset_and_growth_witness:
  "body (envOf []) MaxFileSize hdr (Name fileA) 0 rowPos initState
     = Inr \<lparr>files = [],
            wc = Some \<lparr>pname = ''mx_sellout/20230801-001.csv_part_000000.csv'', prows = [hdr, rowPos], pstatus = Open\<rparr>,
            bytesWritten = 24, closedParts = [], ops = 2\<rparr>
   \<and> (\<exists>s1. rollover (envOf []) MaxFileSize hdr (Name fileA) 0 initState = Inr s1
           \<and> length (allParts s1) = length (allParts initState) + 1
           \<and> bytesWritten s1 = 0
           \<and> 24 = bytesWritten s1 + (length (join rowPos) + 1))"
proof -
  have b: "body (envOf []) MaxFileSize hdr (Name fileA) 0 rowPos initState
     = Inr \<lparr>files = [],
            wc = Some \<lparr>pname = ''mx_sellout/20230801-001.csv_part_000000.csv'', prows = [hdr, rowPos], pstatus = Open\<rparr>,
            bytesWritten = 24, closedParts = [], ops = 2\<rparr>"
    by (simp add: split_eval parse_eval rowPos_def)
  have i: "included (envOf []) rowPos"
    by (simp add: included_def envOf_def keep_def threshold64_def parse_eval rowPos_def)
  have w: "wc initState = None" by (simp add: initState_def)
  from bytesWritten_reset_and_growth[OF b] i w b show ?thesis by auto
qed

subsection \<open>The returned list and the last part\<close>

text \<open>
  Whenever a call returns without an error, the names in the returned list are the names
  of the parts in the store without the last one: \<open>files\<close> grows only when a part is
  closed by the rollover check.
\<close>

lemma body_files:
  assumes "body e m h n i rc s = Inr s2"
    and "map Name (files s) = map pname (closedParts s)"
  shows "map Name (files s2) = map pname (closedParts s2) \<and> wc s2 \<noteq> None"
  using assms
  by (auto simp: body_def rollover_def closeCurrent_def openPart_def processRecord_def
        writeRecord_def account_def Let_def
      split: if_splits option.splits sum.splits)

lemma finish_files:
  assumes "finish e s = (Returned fs None, s')"
    and "map Name (files s) = map pname (closedParts s)"
    and "wc s \<noteq> None \<or> closedParts s = []"
  shows "map Name fs = map pname (butlast (allParts s'))"
  using assms by (auto simp: finish_def allParts_def split: option.splits)

lemma loop_files:
  "loop e m h n i s evs = (Returned fs None, s') \<Longrightarrow>
   map Name (files s) = map pname (closedParts s) \<Longrightarrow>
   wc s \<noteq> None \<or> closedParts s = [] \<Longrightarrow>
   map Name fs = map pname (butlast (allParts s'))"
proof (induction evs arbitrary: s i)
  case Nil
  then have "finish e s = (Returned fs None, s')" by simp
  from finish_files[OF this Nil.prems(2,3)] show ?case .
next
  case (Cons ev evs)
  from Cons.prems(1) obtain r where r: "csvRead h ev = Inr r"
    by (cases "csvRead h ev") auto
  have "\<exists>s1. body e m h n i r s = Inr s1"
  proof (cases "body e m h n i r s")
    case (Inl x)
    obtain rr ss where x: "x = (rr, ss)" by (cases x)
    from Cons.prems(1) r Inl x have "rr = Returned fs None" by simp
    with body_Inl[of e m h n i r s rr ss] Inl x show ?thesis by auto
  next
    case (Inr s1) then show ?thesis by blast
  qed
  then obtain s1 where b: "body e m h n i r s = Inr s1" by blast
  with Cons.prems(1) r have l: "loop e m h n (i + 1) s1 evs = (Returned fs None, s')" by simp
  from body_files[OF b Cons.prems(2)] have
    "map Name (files s1) = map pname (closedParts s1)" and "wc s1 \<noteq> None \<or> closedParts s1 = []"
    by auto
  from Cons.IH[OF l this] show ?case .
qed

lemma returned_list_misses_last_part:
  assumes "ret (splitFileMax m e file) = Returned fs None"
  shows "map Name fs = map pname (butlast (store (splitFileMax m e file)))"
proof (cases "inClient e file")
  case NoObject
  with assms show ?thesis by (simp add: splitFileMax_def)
next
  case (Object evs)
  show ?thesis
  proof (cases evs)
    case Nil
    with Object assms show ?thesis by (simp add: splitFileMax_def deferClose_def)
  next
    case (Cons ev rest)
    show ?thesis
    proof (cases ev)
      case ReadFail
      with Object Cons assms show ?thesis by (simp add: splitFileMax_def deferClose_def)
    next
      case (Rec h)
      with Object Cons have src: "inClient e file = Object (Rec h # rest)" by simp
      from splitFileMax_Object[OF src, of m] obtain r s where
        l: "loop e m h (Name file) 0 initState rest = (r, s)"
        and sf: "splitFileMax m e file = \<lparr>ret = r, store = allParts s, reader = ReaderClosed\<rparr>"
        by blast
      from sf assms have r: "r = Returned fs None" by simp
      from loop_files[OF l[unfolded r]] sf show ?thesis by (simp add: initState_def)
    qed
  qed
qed

text \<open>
  Claim C1, at a source with the header and one data record that is kept. At end of
  input the code closes the open part (it is \<open>Committed\<close> in the store, with the header
  and the record) and returns \<open>files\<close> as it is: the \<open>File\<close> of that part is not in
  the returned list, which is empty.
\<close>

theorem last_part_not_returned:
  "splitFile (envOf [Rec hdr, Rec rowPos]) fileA =
     \<lparr>ret = Returned [] None,
      store = [\<lparr>pname = ''mx_sellout/20230801-001.csv_part_000000.csv'',
                prows = [hdr, rowPos], pstatus = Committed\<rparr>],
      reader = ReaderClosed\<rparr>"
  by (simp add: split_eval parse_eval hdr_def rowPos_def)

subsection \<open>The inclusion test\<close>

text \<open>
  Claim C3, at a source with the header and one data record whose quantity field is
  \<^verbatim>\<open>-5\<close>. The field parses to \<open>- 5\<close>, whose absolute value is above 0.0001, and the
  record is not written: the only part holds the header alone. The test of the code is
  \<^verbatim>\<open>row5-0. > 0.0001\<close>, without the absolute value.
\<close>

theorem negative_quantity_dropped:
  "parseDecimal (rowNeg ! 5) = Some (- 5)
   \<and> \<bar>- 5 :: real\<bar> > 1 / 10000
   \<and> splitFile (envOf [Rec hdr, Rec rowNeg]) fileA =
       \<lparr>ret = Returned [] None,
        store = [\<lparr>pname = ''mx_sellout/20230801-001.csv_part_000000.csv'',
                  prows = [hdr], pstatus = Committed\<rparr>],
        reader = ReaderClosed\<rparr>"
  by (simp add: split_eval parse_eval hdr_def rowNeg_def)

subsection \<open>Handles at an error return\<close>

text \<open>The source reader is never left open, whatever the call does.\<close>

lemma reader_never_left_open: "reader (splitFileMax m e file) \<noteq> ReaderOpen"
  by (simp add: splitFileMax_def deferClose_def split: source.splits)

text \<open>
  Claim C9, at a source with the header and one data record whose quantity field is
  \<^verbatim>\<open>abc\<close>. The call returns the parse error; the source reader is closed (the deferred
  \<^verbatim>\<open>r.Close()\<close>), but the handle of the part opened for this record is still \<open>Open\<close>:
  no error return of the loop calls \<^verbatim>\<open>wc.Close()\<close>.
\<close>

theorem writer_left_open_on_error:
  "splitFile (envOf [Rec hdr, Rec rowBad]) fileA =
     \<lparr>ret = Returned [] (Some ParseFloatError),
      store = [\<lparr>pname = ''mx_sellout/20230801-001.csv_part_000000.csv'',
                prows = [hdr], pstatus = Open\<rparr>],
      reader = ReaderClosed\<rparr>"
  by (simp add: split_eval parse_eval hdr_def rowBad_def)

subsection \<open>What an error return reports\<close>

text \<open>
  Claim C4, at a source with the header, a record of more than \<open>MaxFileSize\<close> bytes, a
  second record and a third record with seven fields. The second record closes the first
  part and appends its \<open>File\<close> to \<open>files\<close>; reading the third record fails with
  \<open>ErrFieldCount\<close>. At that moment \<open>files\<close> holds the first part, and the call returns
  the nil slice with the error (line 128), not \<open>files\<close>.
\<close>

theorem read_error_drops_files:
  "loop (envOf [Rec hdr, Rec rowBig, Rec rowPos, Rec rowExtra]) MaxFileSize hdr (Name fileA) 0 initState
        [Rec rowBig, Rec rowPos, Rec rowExtra]
     = (Returned [] (Some ErrFieldCount),
        \<lparr>files = [\<lparr>Bucket = OutBucket, Name = ''mx_sellout/20230801-001.csv_part_000000.csv''\<rparr>],
         wc = Some \<lparr>pname = ''mx_sellout/20230801-001.csv_part_000001.csv'', prows = [hdr, rowPos], pstatus = Open\<rparr>,
         bytesWritten = 24,
         closedParts = [\<lparr>pname = ''mx_sellout/20230801-001.csv_part_000000.csv'', prows = [hdr, rowBig], pstatus = Committed\<rparr>],
         ops = 5\<rparr>)
   \<and> splitFile (envOf [Rec hdr, Rec rowBig, Rec rowPos, Rec rowExtra]) fileA
     = \<lparr>ret = Returned [] (Some ErrFieldCount),
        store = [\<lparr>pname = ''mx_sellout/20230801-001.csv_part_000000.csv'', prows = [hdr, rowBig], pstatus = Committed\<rparr>,
                 \<lparr>pname = ''mx_sellout/20230801-001.csv_part_000001.csv'', prows = [hdr, rowPos], pstatus = Open\<rparr>],
        reader = ReaderClosed\<rparr>"
proof -
  have l: "loop (envOf [Rec hdr, Rec rowBig, Rec rowPos, Rec rowExtra]) MaxFileSize hdr (Name fileA) 0 initState
        [Rec rowBig, Rec rowPos, Rec rowExtra]
     = (Returned [] (Some ErrFieldCount),
        \<lparr>files = [\<lparr>Bucket = OutBucket, Name = ''mx_sellout/20230801-001.csv_part_000000.csv''\<rparr>],
         wc = Some \<lparr>pname = ''mx_sellout/20230801-001.csv_part_000001.csv'', prows = [hdr, rowPos], pstatus = Open\<rparr>,
         bytesWritten = 24,
         closedParts = [\<lparr>pname = ''mx_sellout/20230801-001.csv_part_000000.csv'', prows = [hdr, rowBig], pstatus = Committed\<rparr>],
         ops = 5\<rparr>)"
    by (simp add: step_eval rowBig_facts parse_eval
          rowBytes_rowPos[unfolded rowPos_def] hdr_def rowPos_def rowExtra_def)
  then show ?thesis
    by (simp add: splitFile_def splitFileMax_def deferClose_def envOf_def allParts_def)
qed

subsection \<open>The threshold\<close>

lemma body_bound:
  assumes b: "body e m h n i rc s = Inr s2"
  shows "bytesWritten s2 \<le> m + rowBytes rc"
proof -
  from b obtain s1 where ro: "rollover e m h n i s = Inr s1" and pr: "processRecord e rc s1 = Inr s2"
    by (auto simp: body_def split: sum.splits)
  from rollover_Inr[OF ro] have w1: "wc s1 \<noteq> None" and le: "bytesWritten s1 \<le> m" by auto
  then obtain p where p: "wc s1 = Some p" by auto
  from processRecord_Inr[OF pr p] le show ?thesis by auto
qed

lemma body_row60b:
  "body (envOf []) 100 hdr (Name fileA) 1 row60b
       \<lparr>files = [],
        wc = Some \<lparr>pname = ''mx_sellout/20230801-001.csv_part_000000.csv'', prows = [hdr, row60a],
                   pstatus = Open\<rparr>,
        bytesWritten = 60, closedParts = [], ops = 2\<rparr> =
      Inr \<lparr>files = [],
           wc = Some \<lparr>pname = ''mx_sellout/20230801-001.csv_part_000000.csv'',
                      prows = [hdr, row60a, row60b], pstatus = Open\<rparr>,
           bytesWritten = 120, closedParts = [], ops = 3\<rparr>"
  by (simp add: step_eval rowBytes_def parse_eval row60b_def)

lemma included_parsed:
  "included e r \<Longrightarrow> \<exists>q. ParseFloat e (r ! 5) = Some q \<and> keep q"
  by (auto simp: included_def split: option.splits)

text \<open>
  Claim C6 as stated, at a source with the header and three data records that are kept
  and count 60 bytes each. \<open>splitFile\<close> has no threshold argument: it compares with the
  constant \<open>MaxFileSize\<close>, which is 10485760 and not 100, and leaves the three records
  in one part.
\<close>

theorem constant_threshold_one_part:
  "MaxFileSize = 10485760
   \<and> rowBytes row60a = 60 \<and> rowBytes row60b = 60 \<and> rowBytes row60c = 60
   \<and> included (envOf [Rec hdr, Rec row60a, Rec row60b, Rec row60c]) row60a
   \<and> included (envOf [Rec hdr, Rec row60a, Rec row60b, Rec row60c]) row60b
   \<and> included (envOf [Rec hdr, Rec row60a, Rec row60b, Rec row60c]) row60c
   \<and> store (splitFile (envOf [Rec hdr, Rec row60a, Rec row60b, Rec row60c]) fileA) =
        [\<lparr>pname = ''mx_sellout/20230801-001.csv_part_000000.csv'',
          prows = [hdr, row60a, row60b, row60c], pstatus = Committed\<rparr>]"
proof -
  have A: "rowBytes row60a = 60 \<and> rowBytes row60b = 60 \<and> rowBytes row60c = 60"
    by (simp add: rowBytes_def row60a_def row60b_def row60c_def)
  have B: "included (envOf [Rec hdr, Rec row60a, Rec row60b, Rec row60c]) row60a
   \<and> included (envOf [Rec hdr, Rec row60a, Rec row60b, Rec row60c]) row60b
   \<and> included (envOf [Rec hdr, Rec row60a, Rec row60b, Rec row60c]) row60c"
    by (simp add: included_def envOf_def keep_def threshold64_def parse_eval row60a_def row60b_def row60c_def)
  have C: "store (splitFile (envOf [Rec hdr, Rec row60a, Rec row60b, Rec row60c]) fileA) =
        [\<lparr>pname = ''mx_sellout/20230801-001.csv_part_000000.csv'',
          prows = [hdr, row60a, row60b, row60c], pstatus = Committed\<rparr>]"
    by (simp add: split_eval parse_eval hdr_def row60a_def row60b_def row60c_def)
  have D: "MaxFileSize = 10485760" by (simp add: MaxFileSize_def)
  from A B C D show ?thesis by blast
qed

text \<open>
  Claim C6 as amended: the loop of the code with the threshold 100 in place of the
  constant. For every source that holds a header of at least six fields and three data
  records that pass the test of the code and count 60 bytes each, with a file name
  without \<^verbatim>\<open>%\<close> and no failure of the destination store, two parts are created: the
  first with the header and records 1 and 2, the second (opened at row index 2) with the
  header and record 3. The count is 60 after record 1, 120 after record 2 (above the
  threshold, in the same part) and 60 again after record 3, which opened the second part.
  With the constant of the program the same source gives one part with the three
  records. For every threshold the count after an iteration is at most the threshold plus
  the bytes of the record of that iteration: the check looks at the count left by the
  records before.
\<close>

theorem two_parts_at_threshold_100:
  assumes src: "inClient e file = Object [Rec h, Rec r1, Rec r2, Rec r3]"
    and nofail: "\<forall>k. \<not> outFails e k"
    and plain: "CHR ''%'' \<notin> set (Name file)"
    and len: "6 \<le> length h" "length r1 = length h" "length r2 = length h" "length r3 = length h"
    and inc: "included e r1" "included e r2" "included e r3"
    and sz: "rowBytes r1 = 60" "rowBytes r2 = 60" "rowBytes r3 = 60"
  shows "store (splitFileMax 100 e file) =
           [\<lparr>pname = Name file @ ''_part_000000.csv'', prows = [h, r1, r2], pstatus = Committed\<rparr>,
            \<lparr>pname = Name file @ ''_part_000002.csv'', prows = [h, r3], pstatus = Committed\<rparr>]
       \<and> store (splitFile e file) =
           [\<lparr>pname = Name file @ ''_part_000000.csv'', prows = [h, r1, r2, r3],
             pstatus = Committed\<rparr>]
       \<and> (\<exists>s1 s2 s3.
             body e 100 h (Name file) 0 r1 initState = Inr s1
             \<and> bytesWritten s1 = 60 \<and> length (allParts s1) = 1
             \<and> body e 100 h (Name file) 1 r2 s1 = Inr s2
             \<and> bytesWritten s2 = 120 \<and> length (allParts s2) = 1
             \<and> body e 100 h (Name file) 2 r3 s2 = Inr s3
             \<and> bytesWritten s3 = 60 \<and> length (allParts s3) = 2)
       \<and> (\<forall>e m h n i rc s s'. body e m h n i rc s = Inr s' \<longrightarrow> bytesWritten s' \<le> m + rowBytes rc)"
proof -
  from inc obtain q1 q2 q3 where
    q: "ParseFloat e (r1 ! 5) = Some q1" "keep q1"
       "ParseFloat e (r2 ! 5) = Some q2" "keep q2"
       "ParseFloat e (r3 ! 5) = Some q3" "keep q3"
    by (blast dest: included_parsed)
  have l5: "\<not> length h \<le> 5" using len(1) by simp
  have names: "partFileName e (Name file) 0 = Name file @ ''_part_000000.csv''"
    "partFileName e (Name file) (Suc (Suc 0)) = Name file @ ''_part_000002.csv''"
    using plain by (simp_all add: partFileName_plain pad6_values)
  have A: "store (splitFileMax 100 e file) =
           [\<lparr>pname = Name file @ ''_part_000000.csv'', prows = [h, r1, r2], pstatus = Committed\<rparr>,
            \<lparr>pname = Name file @ ''_part_000002.csv'', prows = [h, r3], pstatus = Committed\<rparr>]"
    using src nofail len l5 q sz names
    by (simp add: splitFileMax_def deferClose_def initState_def body_def rollover_def
          closeCurrent_def openPart_def processRecord_def writeRecord_def account_def
          finish_def allParts_def csvRead_def)
  have B: "store (splitFile e file) =
           [\<lparr>pname = Name file @ ''_part_000000.csv'', prows = [h, r1, r2, r3],
             pstatus = Committed\<rparr>]"
    using src nofail len l5 q sz names
    by (simp add: splitFile_def MaxFileSize_def splitFileMax_def deferClose_def initState_def
          body_def rollover_def
          closeCurrent_def openPart_def processRecord_def writeRecord_def account_def
          finish_def allParts_def csvRead_def)
  have C: "\<forall>e m h n i rc s s'. body e m h n i rc s = Inr s' \<longrightarrow> bytesWritten s' \<le> m + rowBytes rc"
    using body_bound by blast
  have D: "\<exists>s1 s2 s3.
             body e 100 h (Name file) 0 r1 initState = Inr s1
             \<and> bytesWritten s1 = 60 \<and> length (allParts s1) = 1
             \<and> body e 100 h (Name file) 1 r2 s1 = Inr s2
             \<and> bytesWritten s2 = 120 \<and> length (allParts s2) = 1
             \<and> body e 100 h (Name file) 2 r3 s2 = Inr s3
             \<and> bytesWritten s3 = 60 \<and> length (allParts s3) = 2"
    using nofail len l5 q sz
    by (simp add: initState_def body_def rollover_def
          closeCurrent_def openPart_def processRecord_def writeRecord_def account_def
          allParts_def)
  from A B C D show ?thesis by blast
qed

theorem two_parts_at_threshold_100_witness:
  "inClient (envOf [Rec hdr, Rec row60a, Rec row60b, Rec row60c]) fileA
      = Object [Rec hdr, Rec row60a, Rec row60b, Rec row60c]
   \<and> outFails (envOf [Rec hdr, Rec row60a, Rec row60b, Rec row60c]) = (\<lambda>k. False)
   \<and> CHR ''%'' \<notin> set (Name fileA)
   \<and> 6 \<le> length hdr \<and> length row60a = length hdr \<and> length row60b = length hdr
   \<and> length row60c = length hdr
   \<and> included (envOf [Rec hdr, Rec row60a, Rec row60b, Rec row60c]) row60a
   \<and> included (envOf [Rec hdr, Rec row60a, Rec row60b, Rec row60c]) row60b
   \<and> included (envOf [Rec hdr, Rec row60a, Rec row60b, Rec row60c]) row60c
   \<and> rowBytes row60a = 60 \<and> rowBytes row60b = 60 \<and> rowBytes row60c = 60
   \<and> store (splitFileMax 100 (envOf [Rec hdr, Rec row60a, Rec row60b, Rec row60c]) fileA) =
        [\<lparr>pname = ''mx_sellout/20230801-001.csv_part_000000.csv'',
          prows = [hdr, row60a, row60b], pstatus = Committed\<rparr>,
         \<lparr>pname = ''mx_sellout/20230801-001.csv_part_000002.csv'',
          prows = [hdr, row60c], pstatus = Committed\<rparr>]
   \<and> body (envOf []) 100 hdr (Name fileA) 1 row60b
       \<lparr>files = [],
        wc = Some \<lparr>pname = ''mx_sellout/20230801-001.csv_part_000000.csv'', prows = [hdr, row60a],
                   pstatus = Open\<rparr>,
        bytesWritten = 60, closedParts = [], ops = 2\<rparr> =
      Inr \<lparr>files = [],
           wc = Some \<lparr>pname = ''mx_sellout/20230801-001.csv_part_000000.csv'',
                      prows = [hdr, row60a, row60b], pstatus = Open\<rparr>,
           bytesWritten = 120, closedParts = [], ops = 3\<rparr>
   \<and> (120 :: nat) \<le> 100 + rowBytes row60b"
proof -
  have src: "inClient (envOf [Rec hdr, Rec row60a, Rec row60b, Rec row60c]) fileA
      = Object [Rec hdr, Rec row60a, Rec row60b, Rec row60c]"
    by (simp add: envOf_def)
  have nofail: "\<forall>k. \<not> outFails (envOf [Rec hdr, Rec row60a, Rec row60b, Rec row60c]) k"
    by (simp add: envOf_def)
  have nf: "outFails (envOf [Rec hdr, Rec row60a, Rec row60b, Rec row60c]) = (\<lambda>k. False)"
    by (simp add: envOf_def)
  have plain: "CHR ''%'' \<notin> set (Name fileA)" by (simp add: fileA_def)
  have len: "6 \<le> length hdr" "length row60a = length hdr" "length row60b = length hdr"
    "length row60c = length hdr"
    by (simp_all add: hdr_def row60a_def row60b_def row60c_def)
  have inc: "included (envOf [Rec hdr, Rec row60a, Rec row60b, Rec row60c]) row60a"
    "included (envOf [Rec hdr, Rec row60a, Rec row60b, Rec row60c]) row60b"
    "included (envOf [Rec hdr, Rec row60a, Rec row60b, Rec row60c]) row60c"
    by (simp_all add: included_def envOf_def keep_def threshold64_def parse_eval row60a_def row60b_def row60c_def)
  have sz: "rowBytes row60a = 60" "rowBytes row60b = 60" "rowBytes row60c = 60"
    by (simp_all add: rowBytes_def row60a_def row60b_def row60c_def)
  from two_parts_at_threshold_100[OF src nofail plain len inc sz] body_row60b
    src nf plain len inc sz
  show ?thesis by (simp add: fileA_def)
qed

section \<open>The run\<close>

lemma take_Suc_update: "j < length xs \<Longrightarrow> take (Suc j) (xs[j := x]) = take j xs @ [x]"
  by (simp add: take_Suc_conv_app_nth)

lemma ingestLoop_all_ok:
  "\<forall>k<length ps. ingestFile a (ingests st + k) (ps ! k) = Inr (ids ! k) \<Longrightarrow>
   length ids = length ps \<Longrightarrow> i < length (filesExecs st) \<Longrightarrow>
   length (filesExecs st ! i) = j + length ps \<Longrightarrow>
   filesExecs (ingestLoop a i j ps st) = (filesExecs st)[i := take j (filesExecs st ! i) @ ids]
   \<and> err (ingestLoop a i j ps st) = (if ps = [] then err st else None)
   \<and> trace (ingestLoop a i j ps st) = trace st @ map IngestCall ps
   \<and> ingests (ingestLoop a i j ps st) = ingests st + length ps
   \<and> fi (ingestLoop a i j ps st) = fi st
   \<and> stdout (ingestLoop a i j ps st) = stdout st"
proof (induction ps arbitrary: st j ids)
  case Nil
  then show ?case by simp
next
  case (Cons p ps)
  from Cons.prems(2) obtain x ids' where ids: "ids = x # ids'" by (cases ids) auto
  from Cons.prems(1) have p0: "ingestFile a (ingests st) p = Inr x"
    using ids by (auto dest: spec[of _ 0])
  define st' where "st' = st\<lparr>fp := p, trace := trace st @ [IngestCall p], ingests := ingests st + 1,
      err := None, filesExecs := (filesExecs st)[i := (filesExecs st ! i)[j := x]]\<rparr>"
  have step: "ingestLoop a i j (p # ps) st = ingestLoop a i (j + 1) ps st'"
    using p0 by (simp add: st'_def Let_def)
  have a1: "\<forall>k<length ps. ingestFile a (ingests st' + k) (ps ! k) = Inr (ids' ! k)"
  proof (intro allI impI)
    fix k assume "k < length ps"
    then have "Suc k < length (p # ps)" by simp
    with Cons.prems(1) have "ingestFile a (ingests st + Suc k) ((p # ps) ! Suc k) = Inr (ids ! Suc k)"
      by blast
    then show "ingestFile a (ingests st' + k) (ps ! k) = Inr (ids' ! k)"
      by (simp add: st'_def ids)
  qed
  have a2: "length ids' = length ps" using Cons.prems(2) ids by simp
  have a3: "i < length (filesExecs st')" using Cons.prems(3) by (simp add: st'_def)
  have a4: "length (filesExecs st' ! i) = (j + 1) + length ps"
    using Cons.prems(3,4) by (simp add: st'_def)
  have jl: "j < length (filesExecs st ! i)" using Cons.prems(4) by simp
  have fe: "(filesExecs st')[i := take (j + 1) (filesExecs st' ! i) @ ids']
          = (filesExecs st)[i := take j (filesExecs st ! i) @ ids]"
    using Cons.prems(3) jl by (simp add: st'_def ids take_Suc_update)
  from Cons.IH[OF a1 a2 a3 a4] step fe show ?case
    by (simp add: st'_def)
qed


lemma filesLoop_step:
  assumes "split i f = Returned parts None"
  shows "filesLoop split a i (f # fs) st =
     (let st3 = ingestLoop a i 0 parts
                  (st\<lparr>fi := f, trace := trace st @ [SplitCall f], err := None,
                      stdout := stdout st @ [Name f @ '': '' @ decimal (length parts) @ '' parts''],
                      filesExecs := (filesExecs st)[i := replicate (length parts) []]\<rparr>)
      in if err st3 \<noteq> None then Some st3 else filesLoop split a (i + 1) fs st3)"
  using assms by (simp add: Let_def)

text \<open>
  Claim C5. The first file is split and all its parts are ingested; the second file is
  split into at least two parts, its part 0 is ingested and the ingestion of its part 1
  fails. Then the run stops: no later part is ingested and no later file is split (the
  calls made are exactly those listed). \<open>filesExecs\<close> holds the identifiers of all parts
  of file 0; for file 1 the identifier of part 0, followed by the empty strings the slice
  was made with for the parts not ingested; and a nil slice for every later file. The
  diagnostic names file 1, its part 1 and the error.
\<close>

theorem ingestion_failure_partial_result:
  assumes s0: "split 0 f0 = Returned ps0 None"
    and len0: "length ids0 = length ps0"
    and ok0: "\<forall>k<length ps0. ingestFile a k (ps0 ! k) = Inr (ids0 ! k)"
    and s1: "split 1 f1 = Returned (q0 # q1 # qs) None"
    and ok10: "ingestFile a (length ps0) q0 = Inr id10"
    and bad11: "ingestFile a (length ps0 + 1) q1 = Inl e"
  shows "\<exists>st. mainLoop split a (f0 # f1 # rest) = Some st
       \<and> filesExecs st = ids0 # (id10 # replicate (length (q1 # qs)) []) # replicate (length rest) []
       \<and> report st = Some (f1, q1, e)
       \<and> trace st = SplitCall f0 # map IngestCall ps0 @ [SplitCall f1, IngestCall q0, IngestCall q1]"
proof -
  define n where "n = length rest"
  define stA where "stA =
    \<lparr>filesExecs = replicate (length ps0) [] # [] # replicate n [],
     fi = f0, fp = \<lparr>Bucket = [], Name = []\<rparr>, err = None, trace = [SplitCall f0],
     stdout = [Name f0 @ '': '' @ decimal (length ps0) @ '' parts''], ingests = 0\<rparr>"
  define stB where "stB = ingestLoop a 0 0 ps0 stA"
  have A: "filesExecs stB = ids0 # [] # replicate n []"
    and B: "err stB = None" and C: "trace stB = SplitCall f0 # map IngestCall ps0"
    and D: "ingests stB = length ps0"
    using ingestLoop_all_ok[of ps0 a stA ids0 0 0] ok0 len0
    by (simp_all add: stB_def stA_def)
  have first: "mainLoop split a (f0 # f1 # rest) = filesLoop split a 1 (f1 # rest) stB"
    using s0 B by (simp add: mainLoop_def Let_def stB_def stA_def n_def)
  define stC where "stC = stB\<lparr>fi := f1, trace := trace stB @ [SplitCall f1], err := None,
      stdout := stdout stB @ [Name f1 @ '': '' @ decimal (length (q0 # q1 # qs)) @ '' parts''],
      filesExecs := (filesExecs stB)[1 := replicate (length (q0 # q1 # qs)) []]\<rparr>"
  define stD where "stD = ingestLoop a 1 0 (q0 # q1 # qs) stC"
  have stD: "stD = stC\<lparr>fp := q0, trace := trace stC @ [IngestCall q0], ingests := ingests stC + 1,
        err := None, filesExecs := (filesExecs stC)[1 := (filesExecs stC ! 1)[0 := id10]]\<rparr>
        \<lparr>fp := q1, trace := trace stC @ [IngestCall q0, IngestCall q1], ingests := ingests stC + 2,
         err := Some e\<rparr>"
    using ok10 bad11 D by (simp add: stD_def stC_def Let_def)
  have errD: "err stD = Some e" by (simp add: stD)
  have "filesLoop split a 1 (f1 # rest) stB =
     (let st3 = ingestLoop a 1 0 (q0 # q1 # qs) stC
      in if err st3 \<noteq> None then Some st3 else filesLoop split a (1 + 1) rest st3)"
    unfolding stC_def
    by (rule filesLoop_step[of split 1 f1 "q0 # q1 # qs" a rest stB, OF s1])
  also have "\<dots> = Some stD"
    unfolding stD_def[symmetric] Let_def using errD by simp
  finally have second: "filesLoop split a 1 (f1 # rest) stB = Some stD" .
  have fe: "filesExecs stD = ids0 # (id10 # replicate (length (q1 # qs)) []) # replicate n []"
    using A by (simp add: stD stC_def)
  have rp: "report stD = Some (f1, q1, e)"
    by (simp add: report_def stD stC_def)
  have tr: "trace stD = SplitCall f0 # map IngestCall ps0 @ [SplitCall f1, IngestCall q0, IngestCall q1]"
    using C by (simp add: stD stC_def)
  from first second fe rp tr show ?thesis by (simp add: n_def)
qed

theorem ingestion_failure_partial_result_witness:
  "\<exists>st. mainLoop splitW apiW [fileA, fileB, fileC] = Some st
     \<and> filesExecs st =
         [[''exec:mx_sellout/20230801-001.csv_part_000000.csv'',
           ''exec:mx_sellout/20230801-001.csv_part_000007.csv''],
          [''exec:mx_sellout/20230801-002.csv_part_000000.csv'', [], []],
          []]
     \<and> report st = Some (fileB, partOf fileB ''_part_000004.csv'', IngestError)
     \<and> trace st =
         [SplitCall fileA,
          IngestCall (partOf fileA ''_part_000000.csv''), IngestCall (partOf fileA ''_part_000007.csv''),
          SplitCall fileB,
          IngestCall (partOf fileB ''_part_000000.csv''), IngestCall (partOf fileB ''_part_000004.csv'')]"
proof -
  have h1: "splitW 0 fileA =
      Returned [partOf fileA ''_part_000000.csv'', partOf fileA ''_part_000007.csv''] None"
    by (simp add: splitW_def)
  have h2: "length [''exec:mx_sellout/20230801-001.csv_part_000000.csv'',
                    ''exec:mx_sellout/20230801-001.csv_part_000007.csv'']
            = length [partOf fileA ''_part_000000.csv'', partOf fileA ''_part_000007.csv'']"
    by simp
  have h3: "\<forall>k<length [partOf fileA ''_part_000000.csv'', partOf fileA ''_part_000007.csv''].
       ingestFile apiW k ([partOf fileA ''_part_000000.csv'', partOf fileA ''_part_000007.csv''] ! k)
       = Inr ([''exec:mx_sellout/20230801-001.csv_part_000000.csv'',
               ''exec:mx_sellout/20230801-001.csv_part_000007.csv''] ! k)"
    by (simp add: less_Suc_eq ingestFile_def apiW_def partOf_def fileA_def)
  have h4: "splitW 1 fileB =
      Returned (partOf fileB ''_part_000000.csv'' # partOf fileB ''_part_000004.csv''
                # [partOf fileB ''_part_000009.csv'']) None"
    by (simp add: splitW_def)
  have h5: "ingestFile apiW
       (length [partOf fileA ''_part_000000.csv'', partOf fileA ''_part_000007.csv''])
       (partOf fileB ''_part_000000.csv'')
     = Inr ''exec:mx_sellout/20230801-002.csv_part_000000.csv''"
    by (simp add: ingestFile_def apiW_def partOf_def fileB_def)
  have h6: "ingestFile apiW
       (length [partOf fileA ''_part_000000.csv'', partOf fileA ''_part_000007.csv''] + 1)
       (partOf fileB ''_part_000004.csv'')
     = Inl IngestError"
    by (simp add: ingestFile_def apiW_def)
  from ingestion_failure_partial_result[OF h1 h2 h3 h4 h5 h6, of "[fileC]"]
  show ?thesis by simp
qed

end
